theory Spec2Isabelle
  imports Complex_Main
begin

text \<open>
  The command execution and tracking of \<open>src/tmux.ts\<close>: \<open>setShellConfig\<close>,
  \<open>executeTmux\<close>, \<open>capturePaneContent\<close>, \<open>executeCommand\<close>, \<open>checkCommandStatus\<close>,
  \<open>getCommand\<close>, \<open>getActiveCommandIds\<close>, \<open>cleanupOldCommands\<close> and
  \<open>getEndMarkerText\<close>. An operation is a function from the module's state to its
  outcome and the state it leaves; it runs from its call to its return with no other
  operation in between, so what two calls do when they interleave at an \<open>await\<close> is
  not modelled.
\<close>

section \<open>JavaScript strings and the built-ins the tracker uses\<close>

text \<open>
  A JavaScript string is a sequence of UTF-16 code units. A code unit is modelled by
  its number, so that the white space of \<open>trim\<close>, the digits of \<open>\d\<close> and the
  surrogate pairs of string iteration are the ones of the language. Literals of the
  source are ASCII and are written \<open>js ''...''\<close>.
\<close>

type_synonym jsstring = "nat list"

definition js :: "string \<Rightarrow> jsstring" where
  "js s = map of_char s"

text \<open>The apostrophe, written apart because it delimits string literals here.\<close>

definition apostrophe :: jsstring where
  "apostrophe = [39]"

text \<open>
  \<open>WhiteSpace\<close> and \<open>LineTerminator\<close> of ECMAScript, which is what
  \<open>String.prototype.trim\<close> strips: TAB, LF, VT, FF, CR, SP, NBSP, U+1680,
  U+2000..U+200A, U+2028, U+2029, U+202F, U+205F, U+3000, U+FEFF.
\<close>

definition isWhiteSpace :: "nat \<Rightarrow> bool" where
  "isWhiteSpace c = (c \<in> set [9, 10, 11, 12, 13, 32, 160, 5760, 8232, 8233, 8239, 8287, 12288, 65279]
     \<or> (8192 \<le> c \<and> c \<le> 8202))"

definition trim :: "jsstring \<Rightarrow> jsstring" where
  "trim s = rev (dropWhile isWhiteSpace (rev (dropWhile isWhiteSpace s)))"

text \<open>\<open>t\<close> occurs in \<open>s\<close> at index \<open>i\<close>.\<close>

definition occursAt :: "jsstring \<Rightarrow> jsstring \<Rightarrow> nat \<Rightarrow> bool" where
  "occursAt s t i = (i + length t \<le> length s \<and> take (length t) (drop i s) = t)"

text \<open>
  \<open>s.lastIndexOf(t)\<close>: the search runs from the end of \<open>s\<close> down to index 0 and
  returns the first index it meets where \<open>t\<close> occurs, or \<open>-1\<close>.
\<close>

fun lastIndexDown :: "jsstring \<Rightarrow> jsstring \<Rightarrow> nat \<Rightarrow> int" where
  "lastIndexDown s t 0 = (if occursAt s t 0 then 0 else - 1)"
| "lastIndexDown s t (Suc k) =
     (if occursAt s t (Suc k) then int (Suc k) else lastIndexDown s t k)"

definition lastIndexOf :: "jsstring \<Rightarrow> jsstring \<Rightarrow> int" where
  "lastIndexOf s t = lastIndexDown s t (length s)"

text \<open>
  \<open>s.indexOf(t)\<close>: the search runs from index 0 upwards; \<open>k\<close> counts the code units
  already passed.
\<close>

fun indexUp :: "jsstring \<Rightarrow> jsstring \<Rightarrow> nat \<Rightarrow> int" where
  "indexUp [] t k = (if t = [] then int k else - 1)"
| "indexUp (c # cs) t k =
     (if take (length t) (c # cs) = t then int k else indexUp cs t (Suc k))"

definition indexOf :: "jsstring \<Rightarrow> jsstring \<Rightarrow> int" where
  "indexOf s t = indexUp s t 0"

text \<open>
  \<open>s.substring(start, end)\<close>: both arguments are clamped to \<open>[0, length]\<close> and
  swapped when the first exceeds the second. \<open>s.substring(start)\<close> takes the length
  for the missing end.
\<close>

definition substring :: "jsstring \<Rightarrow> int \<Rightarrow> int \<Rightarrow> jsstring" where
  "substring s start fin =
     (let len = int (length s);
          a = min (max start 0) len;
          b = min (max fin 0) len;
          lo = min a b;
          hi = max a b
      in take (nat (hi - lo)) (drop (nat lo) s))"

definition substringFrom :: "jsstring \<Rightarrow> int \<Rightarrow> jsstring" where
  "substringFrom s start = substring s start (int (length s))"

text \<open>\<open>s.split(sep)\<close> for a separator of one code unit; the result is never empty.\<close>

fun split :: "jsstring \<Rightarrow> nat \<Rightarrow> jsstring list" where
  "split [] sep = [[]]"
| "split (c # cs) sep =
     (if c = sep then [] # split cs sep
      else (case split cs sep of [] \<Rightarrow> [[c]] | x # xs \<Rightarrow> (c # x) # xs))"

text \<open>\<open>a[i]\<close> on an array: \<open>undefined\<close> (here \<open>None\<close>) out of range.\<close>

fun element :: "'a list \<Rightarrow> nat \<Rightarrow> 'a option" where
  "element [] i = None"
| "element (x # xs) 0 = Some x"
| "element (x # xs) (Suc i) = element xs i"

text \<open>The class \<open>\d\<close> of a regular expression without the unicode flag: \<open>0\<close> to \<open>9\<close>.\<close>

definition isDigit :: "nat \<Rightarrow> bool" where
  "isDigit c = (48 \<le> c \<and> c \<le> 57)"

subsection \<open>Numbers\<close>

text \<open>
  A Number is a double: a finite one is given by its value, and there are the two
  infinities and NaN. The sign of zero is not kept, since nothing here tells \<open>-0\<close>
  from \<open>0\<close> (\<open>===\<close> and \<open>>\<close> do not).
\<close>

datatype number = Finite rat | PosInfinity | NegInfinity | NaN

text \<open>The number of binary digits of a natural number.\<close>

function bitLength :: "nat \<Rightarrow> nat" where
  "bitLength n = (if n = 0 then 0 else Suc (bitLength (n div 2)))"
  by pat_completeness auto
termination
  by (relation "measure (\<lambda>n. n)") auto

text \<open>
  The exponent of the greatest power of two that is at most \<open>x\<close>, for \<open>x > 0\<close>;
  and \<open>x\<close> times the power of two of an exponent of either sign.
\<close>

definition floorLog2 :: "rat \<Rightarrow> int" where
  "floorLog2 x =
     (if 1 \<le> x then int (bitLength (nat \<lfloor>x\<rfloor>)) - 1
      else - int (bitLength (nat (\<lceil>1 / x\<rceil> - 1))))"

definition scaleByPowerOf2 :: "rat \<Rightarrow> int \<Rightarrow> rat" where
  "scaleByPowerOf2 x e = (if 0 \<le> e then x * 2 ^ nat e else x / 2 ^ nat (- e))"

text \<open>
  The double nearest to a value, as every arithmetic operation and every conversion
  to Number delivers it (IEEE 754 binary64, round to nearest, ties to even): a
  significand of 53 binary digits, so the unit \<open>2^e\<close> of the result has
  \<open>e = floorLog2 x - 52\<close>, and not below \<open>-1074\<close>, the unit of the subnormal
  doubles; the value is rounded to a multiple \<open>q' * 2^e\<close> of the unit, to the even
  multiple when it lies half-way; a result of \<open>2^1024\<close> or more is Infinity.
\<close>

definition roundPositive :: "rat \<Rightarrow> number" where
  "roundPositive x =
     (let e = max (floorLog2 x - 52) (- 1074);
          m = scaleByPowerOf2 x (- e);
          q = \<lfloor>m\<rfloor>;
          f = m - of_int q;
          q' = (if 1 / 2 < f \<or> (f = 1 / 2 \<and> odd q) then q + 1 else q);
          v = scaleByPowerOf2 (of_int q') e
      in if 2 ^ 1024 \<le> v then PosInfinity else Finite v)"

definition roundToDouble :: "rat \<Rightarrow> number" where
  "roundToDouble x =
     (if x = 0 then Finite 0
      else if 0 < x then roundPositive x
      else (case roundPositive (- x) of
              Finite v \<Rightarrow> Finite (- v)
            | PosInfinity \<Rightarrow> NegInfinity
            | NegInfinity \<Rightarrow> PosInfinity
            | NaN \<Rightarrow> NaN))"

text \<open>\<open>x > y\<close> on Numbers: false when either is NaN.\<close>

fun jsGreater :: "number \<Rightarrow> number \<Rightarrow> bool" where
  "jsGreater (Finite x) (Finite y) = (y < x)"
| "jsGreater (Finite x) NegInfinity = True"
| "jsGreater PosInfinity (Finite y) = True"
| "jsGreater PosInfinity NegInfinity = True"
| "jsGreater x y = False"

text \<open>
  The integer that a run of decimal digits spells, and \<open>parseInt(s, 10)\<close> on a string
  that starts with decimal digits: the Number for the integer its leading digits
  spell, which is that integer below \<open>2^53\<close> and the nearest double from there on.
  (Past 20 significant digits the language lets an engine read the further digits
  as zeros; Node's engine rounds the integer itself, as here.)
\<close>

definition mathInt :: "jsstring \<Rightarrow> int" where
  "mathInt ds = foldl (\<lambda>a d. 10 * a + (int d - 48)) 0 ds"

definition parseInt :: "jsstring \<Rightarrow> number" where
  "parseInt s = roundToDouble (of_int (mathInt (takeWhile isDigit s)))"

text \<open>The decimal text of a natural number, as a template literal prints it.\<close>

function numberToString :: "nat \<Rightarrow> jsstring" where
  "numberToString n =
     (if n < 10 then [48 + n] else numberToString (n div 10) @ [48 + n mod 10])"
  by pat_completeness auto
termination
  by (relation "measure (\<lambda>n. n)") auto

text \<open>
  \<open>for (const char of s)\<close> iterates by code point: a high surrogate followed by a
  low surrogate is one element of two code units.
\<close>

definition isHighSurrogate :: "nat \<Rightarrow> bool" where
  "isHighSurrogate c = (55296 \<le> c \<and> c \<le> 56319)"

definition isLowSurrogate :: "nat \<Rightarrow> bool" where
  "isLowSurrogate c = (56320 \<le> c \<and> c \<le> 57343)"

fun codePoints :: "jsstring \<Rightarrow> jsstring list" where
  "codePoints [] = []"
| "codePoints [c] = [[c]]"
| "codePoints (h # l # cs) =
     (if isHighSurrogate h \<and> isLowSurrogate l then [h, l] # codePoints cs
      else [h] # codePoints (l # cs))"

text \<open>
  \<open>s.replace(/'/g, "'\\''")\<close>: every apostrophe becomes the four code units
  apostrophe, backslash, apostrophe, apostrophe.
\<close>

definition escapeQuotes :: "jsstring \<Rightarrow> jsstring" where
  "escapeQuotes s = concat (map (\<lambda>c. if c = 39 then [39, 92, 39, 39] else [c]) s)"

text \<open>
  \<open>String.prototype.toLowerCase\<close> applies the Unicode case mapping, whose table is
  not part of the repository: the operations below take the lower-casing function as
  a parameter. On ASCII text it is this function.
\<close>

definition toLowerCaseASCII :: "jsstring \<Rightarrow> jsstring" where
  "toLowerCaseASCII s = map (\<lambda>c. if 65 \<le> c \<and> c \<le> 90 then c + 32 else c) s"

section \<open>Data model\<close>

datatype Status = Pending | Completed | Error

text \<open>
  \<open>interface CommandExecution\<close>. \<open>startTime\<close> is the \<open>Date\<close> in milliseconds since
  the epoch; a missing optional field is \<open>None\<close>. The field \<open>id\<close> is written
  \<open>id'\<close>, since \<open>id\<close> is the identity function here.
\<close>

record CommandExecution =
  id' :: jsstring
  paneId :: jsstring
  command :: jsstring
  status :: Status
  startTime :: int
  result :: "jsstring option"
  exitCode :: "number option"
  rawMode :: "bool option"

text \<open>What the source throws: an \<open>Error\<close> with its message, or the runtime's \<open>TypeError\<close>.\<close>

datatype exception = JSError jsstring | TypeError

text \<open>
  The module's state: \<open>shellConfig.type\<close>, the \<open>Map\<close> \<open>activeCommands\<close> in
  insertion order, and the command lines handed to \<open>child_process.exec\<close> so far.
\<close>

record state =
  shellConfig :: jsstring
  activeCommands :: "(jsstring \<times> CommandExecution) list"
  execLog :: "jsstring list"

text \<open>
  What \<open>exec\<close> answers to a command line, given the command lines run before it:
  \<open>Inr\<close> the standard output, or \<open>Inl\<close> the message of the error it rejects with.
\<close>

type_synonym gateway = "jsstring list \<Rightarrow> jsstring \<Rightarrow> jsstring + jsstring"

subsection \<open>The operations of \<open>Map\<close>\<close>

fun mapGet :: "('k \<times> 'v) list \<Rightarrow> 'k \<Rightarrow> 'v option" where
  "mapGet [] k = None"
| "mapGet ((k', v) # m) k = (if k' = k then Some v else mapGet m k)"

text \<open>\<open>set\<close> keeps the position of a key that is present and appends a new key.\<close>

fun mapSet :: "'k \<Rightarrow> 'v \<Rightarrow> ('k \<times> 'v) list \<Rightarrow> ('k \<times> 'v) list" where
  "mapSet k v [] = [(k, v)]"
| "mapSet k v ((k', v') # m) = (if k' = k then (k, v) # m else (k', v') # mapSet k v m)"

fun mapDelete :: "'k \<Rightarrow> ('k \<times> 'v) list \<Rightarrow> ('k \<times> 'v) list" where
  "mapDelete k [] = []"
| "mapDelete k ((k', v') # m) = (if k' = k then m else (k', v') # mapDelete k m)"

text \<open>
  The state when the module is loaded (lines 44 and 256): the shell is \<open>bash\<close>, the
  map is empty and nothing has been run.
\<close>

definition initialState :: state where
  "initialState = \<lparr>shellConfig = js ''bash'', activeCommands = [], execLog = []\<rparr>"

text \<open>A \<open>Map\<close> holds each key once.\<close>

definition wellFormed :: "state \<Rightarrow> bool" where
  "wellFormed st = distinct (map fst (activeCommands st))"

section \<open>Shell configuration\<close>

definition validShells :: "jsstring list" where
  "validShells = [js ''bash'', js ''zsh'', js ''fish'']"

definition setShellConfig :: "jsstring \<Rightarrow> state \<Rightarrow> state" where
  "setShellConfig config_type st =
     (if config_type \<in> set validShells then st\<lparr>shellConfig := config_type\<rparr>
      else st\<lparr>shellConfig := js ''bash''\<rparr>)"

definition startMarkerText :: jsstring where
  "startMarkerText = js ''TMUX_MCP_START''"

definition endMarkerPrefix :: jsstring where
  "endMarkerPrefix = js ''TMUX_MCP_DONE_''"

definition getEndMarkerText :: "state \<Rightarrow> jsstring" where
  "getEndMarkerText st =
     (if shellConfig st = js ''fish'' then endMarkerPrefix @ js ''$status''
      else endMarkerPrefix @ js ''$?'')"

section \<open>The gateway\<close>

text \<open>
  \<open>executeTmux\<close>: runs \<open>tmux <command>\<close>, returns the trimmed standard output, and
  wraps a failure in an \<open>Error\<close>. The command line is logged whatever the outcome.
\<close>

definition executeTmux :: "gateway \<Rightarrow> jsstring \<Rightarrow> state \<Rightarrow> (exception + jsstring) \<times> state" where
  "executeTmux gw tmuxCommand st =
     (let line = js ''tmux '' @ tmuxCommand;
          st' = st\<lparr>execLog := execLog st @ [line]\<rparr>
      in case gw (execLog st) line of
           Inr stdout \<Rightarrow> (Inr (trim stdout), st')
         | Inl message \<Rightarrow>
             (Inl (JSError (js ''Failed to execute tmux command: '' @ message)), st'))"

definition capturePaneContent ::
  "gateway \<Rightarrow> jsstring \<Rightarrow> nat \<Rightarrow> bool \<Rightarrow> state \<Rightarrow> (exception + jsstring) \<times> state" where
  "capturePaneContent gw pane lines includeColors st =
     (let colorFlag = (if includeColors then js ''-e'' else [])
      in executeTmux gw
           (js ''capture-pane -p '' @ colorFlag @ js '' -t '' @ apostrophe @ pane @ apostrophe
              @ js '' -S -'' @ numberToString lines @ js '' -E -'') st)"

section \<open>The command dispatcher\<close>

definition VALID_SHELLS :: "jsstring list" where
  "VALID_SHELLS = [js ''bash'', js ''zsh'', js ''fish'', js ''sh'', js ''dash'', js ''ksh'',
     js ''tcsh'', js ''csh'', js ''ssh'', js ''mosh'']"

definition specialKeys :: "jsstring list" where
  "specialKeys = [js ''Up'', js ''Down'', js ''Left'', js ''Right'', js ''Escape'', js ''Tab'',
     js ''Enter'', js ''Space'', js ''BSpace'', js ''Delete'', js ''Home'', js ''End'',
     js ''PageUp'', js ''PageDown'', js ''F1'', js ''F2'', js ''F3'', js ''F4'', js ''F5'',
     js ''F6'', js ''F7'', js ''F8'', js ''F9'', js ''F10'', js ''F11'', js ''F12'']"

text \<open>
  An optional boolean argument is \<open>None\<close> when it is not passed. Only \<open>true\<close> is truthy,
  and \<open>a || b\<close> is \<open>a\<close> when \<open>a\<close> is truthy and \<open>b\<close> otherwise.
\<close>

definition truthy :: "bool option \<Rightarrow> bool" where
  "truthy b = (b = Some True)"

definition jsOr :: "bool option \<Rightarrow> bool option \<Rightarrow> bool option" where
  "jsOr a b = (if truthy a then a else b)"

text \<open>The tmux command that asks for the pane's foreground process (lines 268-269).\<close>

definition displayMessageCommand :: "jsstring \<Rightarrow> jsstring" where
  "displayMessageCommand pane =
     js ''display-message -p -t '' @ apostrophe @ pane @ apostrophe @ js '' '' @ apostrophe
       @ js ''#{pane_current_command}'' @ apostrophe"

definition notAShellMessage :: "jsstring \<Rightarrow> jsstring \<Rightarrow> jsstring" where
  "notAShellMessage pane currentCommand =
     js ''Cannot execute command: pane '' @ pane @ js '' is running '' @ apostrophe
       @ currentCommand @ apostrophe
       @ js '', not a shell. Use rawMode for interactive applications.''"

text \<open>Lines 267-274 of \<open>executeCommand\<close>: the check that the pane runs a shell.\<close>

definition checkPaneRunsShell ::
  "gateway \<Rightarrow> (jsstring \<Rightarrow> jsstring) \<Rightarrow> jsstring \<Rightarrow> bool option \<Rightarrow> bool option \<Rightarrow> state
     \<Rightarrow> (exception + unit) \<times> state" where
  "checkPaneRunsShell gw toLowerCase pane raw noEnter st =
     (if \<not> truthy raw \<and> \<not> truthy noEnter then
        (case executeTmux gw (displayMessageCommand pane) st of
           (Inl e, st1) \<Rightarrow> (Inl e, st1)
         | (Inr currentCommand, st1) \<Rightarrow>
             if toLowerCase currentCommand \<notin> set VALID_SHELLS
             then (Inl (JSError (notAShellMessage pane currentCommand)), st1)
             else (Inr (), st1))
      else (Inr (), st))"

text \<open>The tmux commands of the four ways of sending (lines 299, 304, 309, 315).\<close>

definition sendSpecialKeyCommand :: "jsstring \<Rightarrow> jsstring \<Rightarrow> jsstring" where
  "sendSpecialKeyCommand pane key =
     js ''send-keys -t '' @ apostrophe @ pane @ apostrophe @ js '' '' @ key"

definition sendCharCommand :: "jsstring \<Rightarrow> jsstring \<Rightarrow> jsstring" where
  "sendCharCommand pane char =
     js ''send-keys -t '' @ apostrophe @ pane @ apostrophe @ js '' '' @ apostrophe
       @ escapeQuotes char @ apostrophe"

definition sendRawCommand :: "jsstring \<Rightarrow> jsstring \<Rightarrow> jsstring" where
  "sendRawCommand pane cmd =
     js ''send-keys -t '' @ apostrophe @ pane @ apostrophe @ js '' '' @ apostrophe
       @ escapeQuotes cmd @ apostrophe @ js '' Enter''"

definition sendMarkedCommand :: "jsstring \<Rightarrow> jsstring \<Rightarrow> jsstring" where
  "sendMarkedCommand pane cmd =
     js ''send-keys -t '' @ apostrophe @ pane @ apostrophe @ js '' '' @ apostrophe
       @ js ''__mcp_start'' @ apostrophe @ js '' Enter '' @ apostrophe
       @ escapeQuotes cmd @ apostrophe @ js '' Enter''"

text \<open>The loop of lines 303-305: one \<open>send-keys\<close> for each character, until one fails.\<close>

fun sendChars :: "gateway \<Rightarrow> jsstring \<Rightarrow> jsstring list \<Rightarrow> state \<Rightarrow> (exception + unit) \<times> state" where
  "sendChars gw pane [] st = (Inr (), st)"
| "sendChars gw pane (char # chars) st =
     (case executeTmux gw (sendCharCommand pane char) st of
        (Inl e, st') \<Rightarrow> (Inl e, st')
      | (Inr out, st') \<Rightarrow> sendChars gw pane chars st')"

text \<open>Lines 290-316 of \<open>executeCommand\<close>: sending the command to the pane.\<close>

definition sendToPane ::
  "gateway \<Rightarrow> jsstring \<Rightarrow> jsstring \<Rightarrow> bool option \<Rightarrow> bool option \<Rightarrow> state
     \<Rightarrow> (exception + unit) \<times> state" where
  "sendToPane gw pane cmd raw noEnter st =
     (if truthy noEnter then
        (if cmd \<in> set specialKeys then
           (case executeTmux gw (sendSpecialKeyCommand pane cmd) st of
              (Inl e, st') \<Rightarrow> (Inl e, st')
            | (Inr out, st') \<Rightarrow> (Inr (), st'))
         else sendChars gw pane (codePoints cmd) st)
      else if truthy raw then
        (case executeTmux gw (sendRawCommand pane cmd) st of
           (Inl e, st') \<Rightarrow> (Inl e, st')
         | (Inr out, st') \<Rightarrow> (Inr (), st'))
      else
        (case executeTmux gw (sendMarkedCommand pane cmd) st of
           (Inl e, st') \<Rightarrow> (Inl e, st')
         | (Inr out, st') \<Rightarrow> (Inr (), st')))"

text \<open>The record stored at lines 280-287.\<close>

definition newExecution ::
  "jsstring \<Rightarrow> int \<Rightarrow> jsstring \<Rightarrow> jsstring \<Rightarrow> bool option \<Rightarrow> bool option \<Rightarrow> CommandExecution" where
  "newExecution commandId now pane cmd raw noEnter =
     \<lparr>id' = commandId, paneId = pane, command = cmd, status = Pending, startTime = now,
      result = None, exitCode = None, rawMode = jsOr raw noEnter\<rparr>"

text \<open>
  \<open>executeCommand\<close>. \<open>commandId\<close> is the value \<open>uuidv4()\<close> returns and \<open>now\<close> the
  value of \<open>new Date()\<close>. The result is the identifier or the exception, together
  with the state the call leaves behind.
\<close>

definition executeCommand ::
  "gateway \<Rightarrow> (jsstring \<Rightarrow> jsstring) \<Rightarrow> jsstring \<Rightarrow> int \<Rightarrow> jsstring \<Rightarrow> jsstring
     \<Rightarrow> bool option \<Rightarrow> bool option \<Rightarrow> state \<Rightarrow> (exception + jsstring) \<times> state" where
  "executeCommand gw toLowerCase commandId now pane cmd raw noEnter st =
     (case checkPaneRunsShell gw toLowerCase pane raw noEnter st of
        (Inl e, st1) \<Rightarrow> (Inl e, st1)
      | (Inr u, st1) \<Rightarrow>
          (let st2 = st1\<lparr>activeCommands :=
                 mapSet commandId (newExecution commandId now pane cmd raw noEnter)
                   (activeCommands st1)\<rparr>
           in case sendToPane gw pane cmd raw noEnter st2 of
                (Inl e, st3) \<Rightarrow> (Inl e, st3)
              | (Inr u', st3) \<Rightarrow> (Inr commandId, st3)))"

section \<open>The execution tracker\<close>

definition rawModeAdvice :: jsstring where
  "rawModeAdvice = js ''Status tracking unavailable for rawMode commands. Use capture-pane to monitor interactive apps instead.''"

definition notCapturedMessage :: jsstring where
  "notCapturedMessage = js ''Command output could not be captured properly''"

text \<open>
  \<open>endLine.match(new RegExp(`${endMarkerPrefix}(\\d+)`))\<close>: the leftmost place where
  the prefix is followed by at least one digit; the value is capture group 1, the
  longest run of digits there, or \<open>None\<close> for \<open>null\<close>.
\<close>

fun matchEndMarker :: "jsstring \<Rightarrow> jsstring option" where
  "matchEndMarker [] = None"
| "matchEndMarker (c # cs) =
     (let digits = takeWhile isDigit (drop (length endMarkerPrefix) (c # cs))
      in if take (length endMarkerPrefix) (c # cs) = endMarkerPrefix \<and> digits \<noteq> []
         then Some digits
         else matchEndMarker cs)"

text \<open>
  Lines 329-364 of \<open>checkCommandStatus\<close>: what becomes of the pending record
  \<open>cmd\<close> once the pane content is captured. The value is the record after its
  assignments, or the exception of reading \<open>match\<close> from \<open>undefined\<close>.
\<close>

definition resolveFromContent :: "jsstring \<Rightarrow> CommandExecution \<Rightarrow> exception + CommandExecution" where
  "resolveFromContent content cmd =
     (if truthy (rawMode cmd) then Inr (cmd\<lparr>result := Some rawModeAdvice\<rparr>)
      else
        (let startIndex = lastIndexOf content startMarkerText;
             endIndex = lastIndexOf content endMarkerPrefix
         in if startIndex = - 1 \<or> endIndex = - 1 \<or> endIndex \<le> startIndex
            then Inr (cmd\<lparr>result := Some notCapturedMessage\<rparr>)
            else
              (case element (split (substringFrom content endIndex) 10) 0 of
                 None \<Rightarrow> Inl TypeError
               | Some endLine \<Rightarrow>
                   (case matchEndMarker endLine of
                      None \<Rightarrow> Inr cmd
                    | Some group1 \<Rightarrow>
                        (let code = parseInt group1;
                             outputStart = startIndex + int (length startMarkerText);
                             outputContent = trim (substring content outputStart endIndex)
                         in Inr (cmd\<lparr>status := (if code = Finite 0 then Completed else Error),
                                     exitCode := Some code,
                                     result := Some (trim (substringFrom outputContent
                                        (indexOf outputContent [10] + 1)))\<rparr>))))))"

text \<open>
  \<open>checkCommandStatus\<close>. The record is an object held by the map, so an assignment
  to one of its fields changes the map's entry in place.
\<close>

definition checkCommandStatus ::
  "gateway \<Rightarrow> jsstring \<Rightarrow> state \<Rightarrow> (exception + CommandExecution option) \<times> state" where
  "checkCommandStatus gw commandId st =
     (case mapGet (activeCommands st) commandId of
        None \<Rightarrow> (Inr None, st)
      | Some cmd \<Rightarrow>
          if status cmd \<noteq> Pending then (Inr (Some cmd), st)
          else
            (case capturePaneContent gw (paneId cmd) 1000 False st of
               (Inl e, st1) \<Rightarrow> (Inl e, st1)
             | (Inr content, st1) \<Rightarrow>
                 (case resolveFromContent content cmd of
                    Inl e \<Rightarrow> (Inl e, st1)
                  | Inr cmd' \<Rightarrow>
                      (Inr (Some cmd'),
                       st1\<lparr>activeCommands := mapSet commandId cmd' (activeCommands st1)\<rparr>))))"

definition getCommand :: "jsstring \<Rightarrow> state \<Rightarrow> CommandExecution option" where
  "getCommand commandId st = mapGet (activeCommands st) commandId"

definition getActiveCommandIds :: "state \<Rightarrow> jsstring list" where
  "getActiveCommandIds st = map fst (activeCommands st)"

text \<open>
  The age of line 382, in minutes: the difference of the two time values and then its
  quotient by \<open>1000 * 60\<close>, each rounded to a double. A time value is an integer of
  at most \<open>8.64 * 10^15\<close> in magnitude, which a double holds as it is.
\<close>

definition ageMinutes :: "int \<Rightarrow> CommandExecution \<Rightarrow> number" where
  "ageMinutes now cmd =
     (case roundToDouble (of_int (now - startTime cmd)) of
        Finite difference \<Rightarrow> roundToDouble (difference / (1000 * 60))
      | PosInfinity \<Rightarrow> PosInfinity
      | NegInfinity \<Rightarrow> NegInfinity
      | NaN \<Rightarrow> NaN)"

definition isStale :: "int \<Rightarrow> number \<Rightarrow> CommandExecution \<Rightarrow> bool" where
  "isStale now maxAgeMinutes cmd =
     (status cmd \<noteq> Pending \<and> jsGreater (ageMinutes now cmd) maxAgeMinutes)"

text \<open>
  \<open>cleanupOldCommands\<close>: the loop visits the entries in order and deletes the current
  one when it is stale. \<open>now\<close> is the value of \<open>new Date()\<close>.
\<close>

definition cleanupOldCommands :: "int \<Rightarrow> number \<Rightarrow> state \<Rightarrow> state" where
  "cleanupOldCommands now maxAgeMinutes st =
     st\<lparr>activeCommands :=
       fold (\<lambda>(k, cmd) m. if isStale now maxAgeMinutes cmd then mapDelete k m else m)
         (activeCommands st) (activeCommands st)\<rparr>"

section \<open>Notions of the specification\<close>

text \<open>
  The last occurrence of \<open>t\<close> in \<open>s\<close>: \<open>t\<close> occurs at \<open>i\<close> and at no later index.
\<close>

definition lastOccurrence :: "jsstring \<Rightarrow> jsstring \<Rightarrow> nat \<Rightarrow> bool" where
  "lastOccurrence s t i = (occursAt s t i \<and> (\<forall>k \<in> {i<..length s}. \<not> occursAt s t k))"

text \<open>
  The invariant of the data model: a pending record has neither exit code nor result.
\<close>

definition pendingIsClean :: "state \<Rightarrow> bool" where
  "pendingIsClean st =
     list_all (\<lambda>(k, cmd). status cmd = Pending \<longrightarrow> exitCode cmd = None \<and> result cmd = None)
       (activeCommands st)"

text \<open>
  The same invariant with room for what a status check leaves on a record it does not
  resolve: a pending record has no exit code, and its result is absent or one of the
  two fixed messages.
\<close>

definition unresolved :: "jsstring \<times> CommandExecution \<Rightarrow> bool" where
  "unresolved p = (status (snd p) = Pending \<longrightarrow>
         exitCode (snd p) = None
         \<and> result (snd p) \<in> {None, Some rawModeAdvice, Some notCapturedMessage})"

definition pendingIsUnresolved :: "state \<Rightarrow> bool" where
  "pendingIsUnresolved st =
     list_all (\<lambda>(k, cmd). status cmd = Pending \<longrightarrow>
         exitCode cmd = None
         \<and> result cmd \<in> {None, Some rawModeAdvice, Some notCapturedMessage})
       (activeCommands st)"

text \<open>
  The exported operations on the tracker's state, with the values they draw from
  outside (\<open>uuidv4()\<close>, \<open>new Date()\<close>), and the state each leaves behind.
\<close>

datatype operation =
    SetShellConfig jsstring
  | ExecuteCommand jsstring int jsstring jsstring "bool option" "bool option"
  | CheckCommandStatus jsstring
  | GetCommand jsstring
  | GetActiveCommandIds
  | CleanupOldCommands int number

fun perform :: "gateway \<Rightarrow> (jsstring \<Rightarrow> jsstring) \<Rightarrow> operation \<Rightarrow> state \<Rightarrow> state" where
  "perform gw toLowerCase (SetShellConfig t) st = setShellConfig t st"
| "perform gw toLowerCase (ExecuteCommand commandId now pane cmd raw noEnter) st =
     snd (executeCommand gw toLowerCase commandId now pane cmd raw noEnter st)"
| "perform gw toLowerCase (CheckCommandStatus commandId) st =
     snd (checkCommandStatus gw commandId st)"
| "perform gw toLowerCase (GetCommand commandId) st = st"
| "perform gw toLowerCase GetActiveCommandIds st = st"
| "perform gw toLowerCase (CleanupOldCommands now maxAgeMinutes) st =
     cleanupOldCommands now maxAgeMinutes st"

text \<open>
  The output as the specification words it: the text between the end of the start
  marker at \<open>i\<close> and the start of the end marker at \<open>j\<close>, trimmed, without its
  first line, trimmed again.
\<close>

definition discardFirstLine :: "jsstring \<Rightarrow> jsstring" where
  "discardFirstLine s = drop 1 (dropWhile (\<lambda>c. c \<noteq> 10) s)"

definition specifiedOutput :: "jsstring \<Rightarrow> nat \<Rightarrow> nat \<Rightarrow> jsstring" where
  "specifiedOutput content i j =
     trim (discardFirstLine (trim (take (j - (i + length startMarkerText))
       (drop (i + length startMarkerText) content))))"

text \<open>A command line that sends keys to the pane.\<close>

definition sendsKeysTo :: "jsstring \<Rightarrow> jsstring \<Rightarrow> bool" where
  "sendsKeysTo pane line =
     (let p = js ''tmux send-keys -t '' @ apostrophe @ pane @ apostrophe @ js '' ''
      in take (length p) line = p)"

text \<open>
  The gateway answers every command line of a list with output, when they are run in
  order after a history.
\<close>

fun allAnswered :: "gateway \<Rightarrow> jsstring list \<Rightarrow> jsstring list \<Rightarrow> bool" where
  "allAnswered gw history [] = True"
| "allAnswered gw history (line # lines) =
     ((case gw history line of Inr out \<Rightarrow> True | Inl message \<Rightarrow> False)
      \<and> allAnswered gw (history @ [line]) lines)"

text \<open>
  What a run of send commands comes to: success when all are answered, and otherwise
  the \<open>Error\<close> of the first that fails, which is the last one run.
\<close>

definition sendOutcome ::
  "gateway \<Rightarrow> jsstring list \<Rightarrow> jsstring list \<Rightarrow> (exception + unit) \<Rightarrow> bool" where
  "sendOutcome gw history lines r =
     (case r of
        Inr u \<Rightarrow> allAnswered gw history lines
      | Inl e \<Rightarrow> \<exists>sent line message. lines = sent @ [line] \<and> allAnswered gw history sent
           \<and> gw (history @ sent) line = Inl message
           \<and> e = JSError (js ''Failed to execute tmux command: '' @ message))"

section \<open>Concrete inputs\<close>

text \<open>A gateway that answers every command line with the same output.\<close>

definition answering :: "jsstring \<Rightarrow> gateway" where
  "answering out = (\<lambda>history line. Inr out)"

text \<open>The record of a normal-mode \<open>echo hi\<close> in pane \<open>%1\<close>, as \<open>executeCommand\<close> stores it.\<close>

definition exampleExecution :: CommandExecution where
  "exampleExecution = newExecution (js ''id1'') 0 (js ''%1'') (js ''echo hi'') None None"

text \<open>The state that tracks one record and nothing else.\<close>

definition tracking :: "CommandExecution \<Rightarrow> state" where
  "tracking cmd = initialState\<lparr>activeCommands := [(id' cmd, cmd)]\<rparr>"

text \<open>The record of a normal-mode \<open>true\<close>, a command that prints nothing.\<close>

definition silentExecution :: CommandExecution where
  "silentExecution = newExecution (js ''id2'') 0 (js ''%1'') (js ''true'') None None"

text \<open>The record of \<open>python3\<close> sent in raw mode to pane \<open>%2\<close>.\<close>

definition rawExecution :: CommandExecution where
  "rawExecution = newExecution (js ''id3'') 0 (js ''%2'') (js ''python3'') (Some True) None"

text \<open>
  A map with an old completed record, an equally old pending one, and a recent failed
  one. Times are in milliseconds.
\<close>

definition agedState :: state where
  "agedState = initialState\<lparr>activeCommands :=
     [(js ''a'', (newExecution (js ''a'') 0 (js ''%1'') (js ''ls'') None None)
                  \<lparr>status := Completed, exitCode := Some (Finite 0), result := Some (js ''notes'')\<rparr>),
      (js ''b'', newExecution (js ''b'') 0 (js ''%1'') (js ''sleep 9999'') None None),
      (js ''c'', (newExecution (js ''c'') 7020000 (js ''%1'') (js ''false'') None None)
                  \<lparr>status := Error, exitCode := Some (Finite 1), result := Some []\<rparr>)]\<rparr>"

text \<open>The record of a normal-mode \<open>sleep 60\<close>, still running when the pane is captured.\<close>

definition runningExecution :: CommandExecution where
  "runningExecution = newExecution (js ''id4'') 0 (js ''%1'') (js ''sleep 60'') None None"

text \<open>
  A gateway where the pane runs \<open>bash\<close> and every \<open>send-keys\<close> fails.
\<close>

definition failingSends :: gateway where
  "failingSends = (\<lambda>history line.
     if take 14 line = js ''tmux send-keys'' then Inl (js ''no server running'')
     else Inr (js ''bash''))"

section \<open>Rounding to a double\<close>

declare bitLength.simps [simp del]

lemma bitLength_bounds:
  "0 < n \<Longrightarrow> 2 ^ (bitLength n - 1) \<le> n \<and> n < 2 ^ bitLength n"
proof (induction n rule: bitLength.induct)
  case (1 n)
  show ?case
  proof (cases "n div 2 = 0")
    case True
    with "1.prems" have "n = 1" by (auto simp: div_eq_0_iff)
    then show ?thesis by (simp add: bitLength.simps)
  next
    case False
    then have pos: "0 < n div 2" by simp
    from "1.IH" "1.prems" pos
    have ih: "2 ^ (bitLength (n div 2) - 1) \<le> n div 2 \<and> n div 2 < 2 ^ bitLength (n div 2)"
      by simp
    have bl: "bitLength n = Suc (bitLength (n div 2))"
      using "1.prems" by (simp add: bitLength.simps[of n])
    have b1: "0 < bitLength (n div 2)"
      using pos by (simp add: bitLength.simps[of "n div 2"])
    then have e: "bitLength n - 1 = Suc (bitLength (n div 2) - 1)"
      using bl by simp
    have "2 ^ (bitLength n - 1) = 2 * 2 ^ (bitLength (n div 2) - 1)"
      unfolding e by simp
    also have "\<dots> \<le> 2 * (n div 2)" using ih by simp
    also have "\<dots> \<le> n" by simp
    finally have lower: "(2::nat) ^ (bitLength n - 1) \<le> n" .
    have "n < 2 * (n div 2) + 2" by presburger
    also have "\<dots> \<le> 2 * 2 ^ bitLength (n div 2)" using ih by simp
    also have "\<dots> = 2 ^ bitLength n" unfolding bl by simp
    finally show ?thesis using lower by simp
  qed
qed

lemma bitLength_positive: "0 < n \<Longrightarrow> 0 < bitLength n"
  by (simp add: bitLength.simps[of n])

lemma scaleByPowerOf2_positive: "0 < x \<Longrightarrow> 0 < scaleByPowerOf2 x e"
  by (simp add: scaleByPowerOf2_def)

text \<open>A value of at least 1 is never rounded to zero.\<close>

lemma roundPositive_not_zero:
  assumes "1 \<le> x"
  shows "roundPositive x \<noteq> Finite 0"
proof -
  let ?n = "nat \<lfloor>x\<rfloor>"
  have n1: "1 \<le> \<lfloor>x\<rfloor>" using assms by simp
  then have npos: "0 < ?n" by simp
  let ?L = "int (bitLength ?n) - 1"
  have L: "floorLog2 x = ?L" using assms by (simp add: floorLog2_def)
  have L0: "0 \<le> ?L" using bitLength_positive[OF npos] by simp
  define e where "e = max (?L - 52) (- 1074)"
  have e: "e = ?L - 52" using L0 by (simp add: e_def)
  have low: "(2::rat) ^ (bitLength ?n - 1) \<le> x"
  proof -
    have "(2::nat) ^ (bitLength ?n - 1) \<le> ?n" using bitLength_bounds[OF npos] by simp
    then have "(of_nat (2 ^ (bitLength ?n - 1)) :: rat) \<le> of_nat ?n" by (simp only: of_nat_le_iff)
    also have "(of_nat ?n :: rat) = of_int \<lfloor>x\<rfloor>" using n1 by simp
    also have "\<dots> \<le> x" by simp
    finally show ?thesis by simp
  qed
  have m1: "1 \<le> scaleByPowerOf2 x (- e)"
  proof (cases "0 \<le> - e")
    case True
    then have "scaleByPowerOf2 x (- e) = x * 2 ^ nat (- e)" by (simp add: scaleByPowerOf2_def)
    moreover have "(1::rat) \<le> 2 ^ nat (- e)" by simp
    moreover have "1 * 1 \<le> x * 2 ^ nat (- e)"
      using assms \<open>(1::rat) \<le> 2 ^ nat (- e)\<close> by (intro mult_mono) simp_all
    ultimately show ?thesis by simp
  next
    case False
    then have pos: "0 < e" by simp
    then have s: "scaleByPowerOf2 x (- e) = x / 2 ^ nat e" by (simp add: scaleByPowerOf2_def)
    have "nat e \<le> bitLength ?n - 1" using e pos by simp
    then have "(2::rat) ^ nat e \<le> 2 ^ (bitLength ?n - 1)" by (simp add: power_increasing)
    with low have "(2::rat) ^ nat e \<le> x" by (rule order_trans[rotated])
    then show ?thesis unfolding s by simp
  qed
  define q where "q = \<lfloor>scaleByPowerOf2 x (- e)\<rfloor>"
  have q1: "1 \<le> q" using m1 by (simp add: q_def le_floor_iff)
  define q' where "q' = (if 1 / 2 < scaleByPowerOf2 x (- e) - of_int q
      \<or> (scaleByPowerOf2 x (- e) - of_int q = 1 / 2 \<and> odd q) then q + 1 else q)"
  have q'1: "1 \<le> q'" using q1 by (simp add: q'_def)
  then have "0 < (of_int q' :: rat)" by simp
  then have vpos: "0 < scaleByPowerOf2 (of_int q') e" by (rule scaleByPowerOf2_positive)
  have "roundPositive x =
      (if 2 ^ 1024 \<le> scaleByPowerOf2 (of_int q') e then PosInfinity
       else Finite (scaleByPowerOf2 (of_int q') e))"
    unfolding roundPositive_def L e_def[symmetric] Let_def q_def[symmetric] q'_def[symmetric] ..
  with vpos show ?thesis by auto
qed

text \<open>An integer below \<open>2^53\<close> is its own double.\<close>

lemma roundPositive_exact:
  assumes "1 \<le> n" and "n < 2 ^ 53"
  shows "roundPositive (of_int n) = Finite (of_int n)"
proof -
  let ?x = "of_int n :: rat"
  have fl: "nat \<lfloor>?x\<rfloor> = nat n" by simp
  have npos: "0 < nat n" using assms(1) by simp
  let ?L = "int (bitLength (nat n)) - 1"
  have L: "floorLog2 ?x = ?L" using assms(1) by (simp add: floorLog2_def)
  have "(2::nat) ^ (bitLength (nat n) - 1) \<le> nat n" using bitLength_bounds[OF npos] by simp
  also have "nat n < 2 ^ 53" using assms by (simp add: nat_less_iff)
  finally have "(2::nat) ^ (bitLength (nat n) - 1) < 2 ^ 53" .
  then have "bitLength (nat n) - 1 < 53" by (rule power_less_imp_less_exp[rotated]) simp
  then have L52: "?L \<le> 52" by simp
  have L0: "0 \<le> ?L" using bitLength_positive[OF npos] by simp
  define k where "k = nat (52 - ?L)"
  have e: "max (?L - 52) (- 1074) = - int k" using L52 L0 by (simp add: k_def)
  have m: "scaleByPowerOf2 ?x (int k) = of_int (n * 2 ^ k)"
    by (simp add: scaleByPowerOf2_def)
  have v: "scaleByPowerOf2 (of_int (n * 2 ^ k)) (- int k) = ?x"
    by (simp add: scaleByPowerOf2_def)
  have small: "\<not> (2::rat) ^ 1024 \<le> ?x"
  proof -
    have "?x < of_int (2 ^ 53)" using assms(2) by (simp only: of_int_less_iff)
    also have "\<dots> \<le> (2::rat) ^ 1024" by simp
    finally show ?thesis by simp
  qed
  have c: "\<not> ((1::rat) / 2 < 0 \<or> ((0::rat) = 1 / 2 \<and> odd (n * 2 ^ k)))" by simp
  show ?thesis
    unfolding roundPositive_def L e Let_def minus_minus m floor_of_int diff_self
    by (simp only: c if_False v small)
qed

lemma roundToDouble_exact:
  assumes "0 \<le> n" and "n < 2 ^ 53"
  shows "roundToDouble (of_int n) = Finite (of_int n)"
proof (cases "n = 0")
  case True
  then show ?thesis by (simp add: roundToDouble_def)
next
  case False
  with assms have "1 \<le> n" by simp
  from roundPositive_exact[OF this assms(2)] False assms(1) show ?thesis
    by (simp add: roundToDouble_def)
qed

lemma roundToDouble_zero_iff:
  assumes "0 \<le> n"
  shows "(roundToDouble (of_int n) = Finite 0) = (n = 0)"
proof (cases "n = 0")
  case True
  then show ?thesis by (simp add: roundToDouble_def)
next
  case False
  with assms have "1 \<le> n" by simp
  then have "(1::rat) \<le> of_int n" by simp
  from roundPositive_not_zero[OF this] False assms show ?thesis
    by (simp add: roundToDouble_def)
qed

text \<open>Evaluating the rounding of a given value.\<close>

lemma floor_rat_numeral: "\<lfloor>numeral a / numeral b :: rat\<rfloor> = numeral a div numeral b"
  by (metis floor_divide_of_int_eq of_int_numeral)

lemma ceiling_rat_numeral: "\<lceil>numeral a / numeral b :: rat\<rceil> = - (- numeral a div numeral b)"
  by (metis ceiling_def floor_divide_of_int_eq minus_divide_left of_int_minus of_int_numeral)

lemmas round_eval = roundToDouble_def roundPositive_def floorLog2_def Let_def
  scaleByPowerOf2_def bitLength.simps floor_rat_numeral ceiling_rat_numeral

lemma mathInt_nonneg_aux: "0 \<le> a \<Longrightarrow> \<forall>d \<in> set ds. isDigit d \<Longrightarrow>
   0 \<le> foldl (\<lambda>a d. 10 * a + (int d - 48)) a ds"
  by (induction ds arbitrary: a) (auto simp: isDigit_def)

lemma mathInt_nonneg: "0 \<le> mathInt (takeWhile isDigit s)"
  unfolding mathInt_def
  by (rule mathInt_nonneg_aux) (auto dest: set_takeWhileD)

lemma parseInt_digits:
  "parseInt (takeWhile isDigit s) = roundToDouble (of_int (mathInt (takeWhile isDigit s)))"
  by (simp add: parseInt_def)

lemma parseInt_zero_iff:
  "(parseInt (takeWhile isDigit s) = Finite 0) = (mathInt (takeWhile isDigit s) = 0)"
  unfolding parseInt_digits by (rule roundToDouble_zero_iff[OF mathInt_nonneg])

section \<open>Searching from the end\<close>

lemma occursAt_le: "occursAt s t i \<Longrightarrow> i \<le> length s"
  by (simp add: occursAt_def)

lemma lastIndexDown_none:
  "(lastIndexDown s t n = - 1) = (\<forall>i\<le>n. \<not> occursAt s t i)"
proof (induction n)
  case 0
  then show ?case by simp
next
  case (Suc n)
  then show ?case by (auto simp: le_Suc_eq)
qed

lemma lastIndexDown_some:
  "(lastIndexDown s t n = int i) =
     (i \<le> n \<and> occursAt s t i \<and> (\<forall>k. i < k \<and> k \<le> n \<longrightarrow> \<not> occursAt s t k))"
proof (induction n)
  case 0
  then show ?case by auto
next
  case (Suc n)
  show ?case
  proof (cases "occursAt s t (Suc n)")
    case True
    have a: "lastIndexDown s t (Suc n) = int (Suc n)" using True by simp
    have b: "(int (Suc n) = int i) = (i = Suc n)" by linarith
    have c: "(i = Suc n) =
      (i \<le> Suc n \<and> occursAt s t i \<and> (\<forall>k. i < k \<and> k \<le> Suc n \<longrightarrow> \<not> occursAt s t k))"
      using True by (metis le_neq_implies_less order_refl leD)
    show ?thesis unfolding a b c ..
  next
    case False
    then show ?thesis using Suc
      by (auto simp: le_Suc_eq)
  qed
qed

lemma lastIndexDown_range: "lastIndexDown s t n = - 1 \<or> (\<exists>i. lastIndexDown s t n = int i)"
proof (induction n)
  case 0
  have "(0::int) = int 0" by simp
  then show ?case by (metis lastIndexDown.simps(1))
next
  case (Suc n)
  show ?case
  proof (cases "occursAt s t (Suc n)")
    case True
    then have "lastIndexDown s t (Suc n) = int (Suc n)" by simp
    then show ?thesis by blast
  next
    case False
    then show ?thesis using Suc by simp
  qed
qed

lemma lastIndexOf_none: "(lastIndexOf s t = - 1) = (\<forall>i. \<not> occursAt s t i)"
  unfolding lastIndexOf_def lastIndexDown_none
  using occursAt_le by blast

lemma lastIndexOf_some: "(lastIndexOf s t = int i) = lastOccurrence s t i"
  unfolding lastIndexOf_def lastIndexDown_some lastOccurrence_def
  using occursAt_le by auto

lemma lastIndexOf_cases:
  "lastIndexOf s t = - 1 \<or> (\<exists>i. lastIndexOf s t = int i)"
  unfolding lastIndexOf_def by (rule lastIndexDown_range)

section \<open>The end line and the match on it\<close>

lemma element_split_first: "element (split s sep) 0 = Some (takeWhile (\<lambda>c. c \<noteq> sep) s)"
proof (induction s)
  case Nil
  then show ?case by simp
next
  case (Cons c cs)
  then show ?case by (cases "split cs sep") auto
qed

lemma occursAt_Cons: "occursAt (c # cs) t (Suc k) = occursAt cs t k"
  by (simp add: occursAt_def)

lemma occursAt_zero: "occursAt s t 0 = (take (length t) s = t)"
proof
  assume "occursAt s t 0"
  then show "take (length t) s = t" by (simp add: occursAt_def)
next
  assume a: "take (length t) s = t"
  have "length (take (length t) s) = min (length s) (length t)" by simp
  with a have "length t \<le> length s" by (metis min.cobounded1)
  with a show "occursAt s t 0" by (simp add: occursAt_def)
qed

lemma occursAt_append: "occursAt xs t k \<Longrightarrow> occursAt (xs @ ys) t k"
  by (simp add: occursAt_def)

lemma occursAt_drop: "j \<le> length s \<Longrightarrow> occursAt (drop j s) t k \<Longrightarrow> occursAt s t (j + k)"
  by (auto simp: occursAt_def add.commute)

lemma endMarkerPrefix_nonempty: "endMarkerPrefix \<noteq> []"
  by (simp add: endMarkerPrefix_def js_def)

lemma endMarkerPrefix_one_line: "\<forall>c \<in> set endMarkerPrefix. c \<noteq> 10"
  by (simp add: endMarkerPrefix_def js_def)

lemma matchEndMarker_absent:
  "(\<forall>k. \<not> occursAt s endMarkerPrefix k) \<Longrightarrow> matchEndMarker s = None"
proof (induction s)
  case Nil
  then show ?case by simp
next
  case (Cons c cs)
  have "\<not> occursAt (c # cs) endMarkerPrefix 0" using Cons.prems by blast
  then have no: "take (length endMarkerPrefix) (c # cs) \<noteq> endMarkerPrefix"
    by (simp add: occursAt_zero)
  have "\<forall>k. \<not> occursAt cs endMarkerPrefix k"
    using Cons.prems occursAt_Cons by blast
  then have "matchEndMarker cs = None" by (rule Cons.IH)
  with no show ?case by (simp add: Let_def)
qed

lemma takeWhile_digit_line:
  "takeWhile isDigit (takeWhile (\<lambda>c. c \<noteq> 10) xs) = takeWhile isDigit xs"
  by (induction xs) (auto simp: isDigit_def)

lemma substringFrom_drop: "j \<le> length s \<Longrightarrow> substringFrom s (int j) = drop j s"
  by (simp add: substringFrom_def substring_def Let_def min_def max_def)

text \<open>The end line and the match on it, when the prefix occurs last at j.\<close>

lemma matchEndMarker_at_last:
  assumes last: "lastOccurrence content endMarkerPrefix j"
  defines "digits \<equiv> takeWhile isDigit (drop (j + length endMarkerPrefix) content)"
  shows "matchEndMarker (takeWhile (\<lambda>c. c \<noteq> 10) (drop j content)) =
           (if digits = [] then None else Some digits)"
proof -
  let ?P = endMarkerPrefix
  let ?rest = "drop (j + length ?P) content"
  let ?r = "takeWhile (\<lambda>c. c \<noteq> 10) ?rest"
  have occ: "occursAt content ?P j" using last by (simp add: lastOccurrence_def)
  then have jle: "j \<le> length content" by (rule occursAt_le)
  have "take (length ?P) (drop j content) = ?P" using occ by (simp add: occursAt_def)
  then have split: "drop j content = ?P @ ?rest"
    by (metis append_take_drop_id drop_drop add.commute)
  have line: "takeWhile (\<lambda>c. c \<noteq> 10) (drop j content) = ?P @ ?r"
    unfolding split using endMarkerPrefix_one_line by (simp add: takeWhile_append2)
  obtain c cs where cons: "?P @ ?r = c # cs"
    using endMarkerPrefix_nonempty by (cases "?P @ ?r") auto
  have later: "\<forall>k. \<not> occursAt cs ?P k"
  proof (intro allI notI)
    fix k assume "occursAt cs ?P k"
    then have "occursAt (?P @ ?r) ?P (Suc k)" by (simp add: cons occursAt_Cons)
    then have "occursAt ((?P @ ?r) @ dropWhile (\<lambda>c. c \<noteq> 10) ?rest) ?P (Suc k)"
      by (rule occursAt_append)
    then have "occursAt (drop j content) ?P (Suc k)" by (simp add: split)
    then have o: "occursAt content ?P (j + Suc k)" using jle by (rule occursAt_drop[rotated])
    then have "j + Suc k \<le> length content" by (rule occursAt_le)
    then show False using last o by (simp add: lastOccurrence_def)
  qed
  have d: "takeWhile isDigit (drop (length ?P) (c # cs)) = digits"
    unfolding cons[symmetric] digits_def by (simp add: takeWhile_digit_line)
  have t: "take (length ?P) (c # cs) = ?P"
    unfolding cons[symmetric] by simp
  show ?thesis
    unfolding line cons
    using matchEndMarker_absent[OF later] d t by (simp add: Let_def)
qed

section \<open>The status check on a pending record\<close>

lemma executeTmux_frame:
  "activeCommands (snd (executeTmux gw c st)) = activeCommands st
   \<and> shellConfig (snd (executeTmux gw c st)) = shellConfig st"
  by (simp add: executeTmux_def Let_def split: sum.splits)

lemma capturePaneContent_frame:
  "activeCommands (snd (capturePaneContent gw pane n col st)) = activeCommands st
   \<and> shellConfig (snd (capturePaneContent gw pane n col st)) = shellConfig st"
  by (simp add: capturePaneContent_def executeTmux_frame)

lemma mapGet_mapSet_same: "mapGet (mapSet k v m) k = Some v"
  by (induction m) auto

lemma mapSet_same_value: "mapGet m k = Some v \<Longrightarrow> mapSet k v m = m"
  by (induction m) (auto split: if_splits)

lemma resolve_raw:
  "truthy (rawMode cmd) \<Longrightarrow>
     resolveFromContent content cmd = Inr (cmd\<lparr>result := Some rawModeAdvice\<rparr>)"
  by (simp add: resolveFromContent_def)

lemma resolve_unlocated:
  assumes "\<not> truthy (rawMode cmd)"
    and "\<not> (\<exists>i j. lastOccurrence content startMarkerText i
            \<and> lastOccurrence content endMarkerPrefix j \<and> i < j)"
  shows "resolveFromContent content cmd = Inr (cmd\<lparr>result := Some notCapturedMessage\<rparr>)"
proof -
  have "lastIndexOf content startMarkerText = - 1 \<or> lastIndexOf content endMarkerPrefix = - 1
        \<or> lastIndexOf content endMarkerPrefix \<le> lastIndexOf content startMarkerText"
  proof (rule ccontr)
    assume n: "\<not> ?thesis"
    then obtain i where i: "lastIndexOf content startMarkerText = int i"
      using lastIndexOf_cases by blast
    from n obtain j where j: "lastIndexOf content endMarkerPrefix = int j"
      using lastIndexOf_cases by blast
    from n i j have "i < j" by simp
    with i j assms(2) show False by (simp add: lastIndexOf_some)
  qed
  then show ?thesis using assms(1) by (auto simp: resolveFromContent_def Let_def)
qed

lemma resolve_located:
  assumes "\<not> truthy (rawMode cmd)"
    and s: "lastOccurrence content startMarkerText i"
    and e: "lastOccurrence content endMarkerPrefix j"
    and "i < j"
  shows "resolveFromContent content cmd =
     (let digits = takeWhile isDigit (drop (j + length endMarkerPrefix) content);
          outputContent = trim (substring content (int i + int (length startMarkerText)) (int j))
      in if digits = [] then Inr cmd
         else Inr (cmd\<lparr>status := (if parseInt digits = Finite 0 then Completed else Error),
                     exitCode := Some (parseInt digits),
                     result := Some (trim (substringFrom outputContent
                                              (indexOf outputContent [10] + 1)))\<rparr>))"
proof -
  have si: "lastIndexOf content startMarkerText = int i" using s by (simp add: lastIndexOf_some)
  have ej: "lastIndexOf content endMarkerPrefix = int j" using e by (simp add: lastIndexOf_some)
  have "occursAt content endMarkerPrefix j" using e by (simp add: lastOccurrence_def)
  then have "j \<le> length content" by (rule occursAt_le)
  then have line: "element (split (substringFrom content (int j)) 10) 0
      = Some (takeWhile (\<lambda>c. c \<noteq> 10) (drop j content))"
    by (simp add: substringFrom_drop element_split_first)
  show ?thesis
    unfolding resolveFromContent_def si ej
    using assms(1) \<open>i < j\<close>
    by (simp add: Let_def line matchEndMarker_at_last[OF e])
qed

lemma resolve_returns: "\<exists>cmd'. resolveFromContent content cmd = Inr cmd'"
proof (cases "truthy (rawMode cmd)")
  case True
  then show ?thesis by (simp add: resolve_raw)
next
  case False
  show ?thesis
  proof (cases "\<exists>i j. lastOccurrence content startMarkerText i
            \<and> lastOccurrence content endMarkerPrefix j \<and> i < j")
    case True
    then obtain i j where "lastOccurrence content startMarkerText i"
      "lastOccurrence content endMarkerPrefix j" "i < j" by blast
    from resolve_located[OF False this] show ?thesis by (simp add: Let_def)
  next
    case False
    with \<open>\<not> truthy (rawMode cmd)\<close> show ?thesis by (simp add: resolve_unlocated)
  qed
qed

lemma checkCommandStatus_pending:
  assumes "mapGet (activeCommands st) commandId = Some cmd"
    and "status cmd = Pending"
    and "fst (capturePaneContent gw (paneId cmd) 1000 False st) = Inr content"
    and "resolveFromContent content cmd = Inr cmd'"
  shows "checkCommandStatus gw commandId st =
     (Inr (Some cmd'),
      (snd (capturePaneContent gw (paneId cmd) 1000 False st))
        \<lparr>activeCommands := mapSet commandId cmd' (activeCommands st)\<rparr>)"
proof -
  obtain r st1 where c: "capturePaneContent gw (paneId cmd) 1000 False st = (r, st1)"
    by (cases "capturePaneContent gw (paneId cmd) 1000 False st")
  have "activeCommands st1 = activeCommands st"
    using capturePaneContent_frame[of gw "paneId cmd" 1000 False st] c by simp
  then show ?thesis using assms c by (simp add: checkCommandStatus_def)
qed

lemmas search_eval = js_def lastIndexOf_def occursAt_def startMarkerText_def endMarkerPrefix_def

lemma tracking_get: "mapGet (activeCommands (tracking cmd)) (id' cmd) = Some cmd"
  by (simp add: tracking_def initialState_def)

lemma example_pending:
  "status exampleExecution = Pending" "\<not> truthy (rawMode exampleExecution)"
  by (simp_all add: exampleExecution_def newExecution_def truthy_def jsOr_def)

lemma answering_capture:
  "trim out = content \<Longrightarrow>
   fst (capturePaneContent (answering out) pane n col st) = Inr content"
  by (simp add: capturePaneContent_def executeTmux_def answering_def Let_def)

lemma lastOccurrenceI: "lastIndexOf s t = int i \<Longrightarrow> lastOccurrence s t i"
  by (simp add: lastIndexOf_some)

lemma not_located_without_end:
  "lastIndexOf s endMarkerPrefix = - 1 \<Longrightarrow>
   \<not> (\<exists>i j. lastOccurrence s startMarkerText i \<and> lastOccurrence s endMarkerPrefix j \<and> i < j)"
  by (auto simp: lastIndexOf_none lastOccurrence_def)

lemma checkCommandStatus_resolved:
  assumes get: "mapGet (activeCommands st) commandId = Some cmd"
    and pend: "status cmd = Pending"
    and notraw: "\<not> truthy (rawMode cmd)"
    and cap: "fst (capturePaneContent gw (paneId cmd) 1000 False st) = Inr content"
    and s: "lastIndexOf content startMarkerText = int i"
    and e: "lastIndexOf content endMarkerPrefix = int j"
    and o: "i < j"
    and d: "takeWhile isDigit (drop (j + length endMarkerPrefix) content) = digits"
    and n: "digits \<noteq> []"
    and oc: "trim (substring content (int i + int (length startMarkerText)) (int j)) = outputContent"
    and r: "trim (substringFrom outputContent (indexOf outputContent [10] + 1)) = res"
  shows "fst (checkCommandStatus gw commandId st) =
     Inr (Some (cmd\<lparr>status := (if parseInt digits = Finite 0 then Completed else Error),
                    exitCode := Some (parseInt digits), result := Some res\<rparr>))"
proof -
  from resolve_located[OF notraw lastOccurrenceI[OF s] lastOccurrenceI[OF e] o] d n oc r
  have "resolveFromContent content cmd =
     Inr (cmd\<lparr>status := (if parseInt digits = Finite 0 then Completed else Error),
               exitCode := Some (parseInt digits), result := Some res\<rparr>)"
    by (simp add: Let_def)
  from checkCommandStatus_pending[OF get pend cap this] show ?thesis by simp
qed

section \<open>What the dispatcher leaves of the map\<close>

lemma sendChars_frame:
  "activeCommands (snd (sendChars gw pane chars st)) = activeCommands st"
proof (induction chars arbitrary: st)
  case Nil
  then show ?case by simp
next
  case (Cons c cs)
  obtain r st' where e: "executeTmux gw (sendCharCommand pane c) st = (r, st')"
    by (cases "executeTmux gw (sendCharCommand pane c) st")
  then have "activeCommands st' = activeCommands st"
    using executeTmux_frame[of gw "sendCharCommand pane c" st] by simp
  with e Cons show ?case by (cases r) auto
qed

lemma sendToPane_frame:
  "activeCommands (snd (sendToPane gw pane cmd raw noEnter st)) = activeCommands st"
proof -
  have x: "activeCommands (snd (case executeTmux gw c st of
              (Inl e, st') \<Rightarrow> (Inl e, st') | (Inr out, st') \<Rightarrow> (Inr (), st')))
         = activeCommands st" for c
    using executeTmux_frame[of gw c st]
    by (cases "executeTmux gw c st") (auto split: sum.splits)
  show ?thesis
    unfolding sendToPane_def by (simp add: x sendChars_frame)
qed

lemma checkPaneRunsShell_frame:
  "activeCommands (snd (checkPaneRunsShell gw lc pane raw noEnter st)) = activeCommands st"
  using executeTmux_frame[of gw "displayMessageCommand pane" st]
  by (cases "executeTmux gw (displayMessageCommand pane) st")
    (auto simp: checkPaneRunsShell_def split: sum.splits)

lemma executeCommand_map:
  "activeCommands (snd (executeCommand gw lc commandId now pane cmd raw noEnter st))
     = (case fst (checkPaneRunsShell gw lc pane raw noEnter st) of
          Inl e \<Rightarrow> activeCommands st
        | Inr u \<Rightarrow> mapSet commandId (newExecution commandId now pane cmd raw noEnter)
                     (activeCommands st))"
proof -
  obtain r st1 where c: "checkPaneRunsShell gw lc pane raw noEnter st = (r, st1)"
    by (cases "checkPaneRunsShell gw lc pane raw noEnter st")
  then have m: "activeCommands st1 = activeCommands st"
    using checkPaneRunsShell_frame[of gw lc pane raw noEnter st] by simp
  show ?thesis
  proof (cases r)
    case (Inl e)
    with c m show ?thesis by (simp add: executeCommand_def)
  next
    case (Inr u)
    let ?st2 = "st1\<lparr>activeCommands :=
                 mapSet commandId (newExecution commandId now pane cmd raw noEnter)
                   (activeCommands st1)\<rparr>"
    have "activeCommands (snd (sendToPane gw pane cmd raw noEnter ?st2)) = activeCommands ?st2"
      by (rule sendToPane_frame)
    with c m Inr show ?thesis
      by (cases "sendToPane gw pane cmd raw noEnter ?st2")
        (auto simp: executeCommand_def Let_def split: sum.splits)
  qed
qed

section \<open>What sending comes to\<close>

lemma executeTmux_log:
  "execLog (snd (executeTmux gw c st)) = execLog st @ [js ''tmux '' @ c]"
  by (simp add: executeTmux_def Let_def split: sum.splits)

lemma executeTmux_result:
  "fst (executeTmux gw c st) =
     (case gw (execLog st) (js ''tmux '' @ c) of
        Inr out \<Rightarrow> Inr (trim out)
      | Inl message \<Rightarrow> Inl (JSError (js ''Failed to execute tmux command: '' @ message)))"
  by (simp add: executeTmux_def Let_def split: sum.splits)

lemma sendOutcome_single:
  "sendOutcome gw (execLog st) [js ''tmux '' @ c]
     (case executeTmux gw c st of (Inl e, st') \<Rightarrow> Inl e | (Inr out, st') \<Rightarrow> Inr ())"
proof (cases "gw (execLog st) (js ''tmux '' @ c)")
  case (Inl message)
  then show ?thesis
    by (simp add: executeTmux_def Let_def sendOutcome_def)
next
  case (Inr out)
  then show ?thesis
    by (simp add: executeTmux_def Let_def sendOutcome_def)
qed

lemma sendOutcome_Cons:
  assumes "gw history line = Inr out" and "sendOutcome gw (history @ [line]) lines r"
  shows "sendOutcome gw history (line # lines) r"
proof (cases r)
  case (Inl e)
  with assms(2) obtain sent l message where d: "lines = sent @ [l]"
    "allAnswered gw (history @ [line]) sent" "gw ((history @ [line]) @ sent) l = Inl message"
    "e = JSError (js ''Failed to execute tmux command: '' @ message)"
    by (auto simp: sendOutcome_def)
  then have "line # lines = (line # sent) @ [l]" "allAnswered gw history (line # sent)"
    "gw (history @ (line # sent)) l = Inl message"
    using assms(1) by simp_all
  with d(4) Inl show ?thesis unfolding sendOutcome_def by (simp only: sum.case) blast
next
  case (Inr u)
  with assms show ?thesis by (simp add: sendOutcome_def)
qed

lemma sendsKeysTo_char: "sendsKeysTo pane (js ''tmux '' @ sendCharCommand pane c)"
  by (simp add: sendsKeysTo_def sendCharCommand_def js_def Let_def)

lemma sendsKeysTo_special: "sendsKeysTo pane (js ''tmux '' @ sendSpecialKeyCommand pane c)"
  by (simp add: sendsKeysTo_def sendSpecialKeyCommand_def js_def Let_def)

lemma sendsKeysTo_raw: "sendsKeysTo pane (js ''tmux '' @ sendRawCommand pane c)"
  by (simp add: sendsKeysTo_def sendRawCommand_def js_def Let_def)

lemma sendsKeysTo_marked: "sendsKeysTo pane (js ''tmux '' @ sendMarkedCommand pane c)"
  by (simp add: sendsKeysTo_def sendMarkedCommand_def js_def Let_def)

lemma sendChars_outcome:
  "\<exists>lines. execLog (snd (sendChars gw pane chars st)) = execLog st @ lines
      \<and> list_all (sendsKeysTo pane) lines
      \<and> sendOutcome gw (execLog st) lines (fst (sendChars gw pane chars st))"
proof (induction chars arbitrary: st)
  case Nil
  then show ?case by (simp add: sendOutcome_def)
next
  case (Cons c cs)
  let ?line = "js ''tmux '' @ sendCharCommand pane c"
  obtain r st1 where e: "executeTmux gw (sendCharCommand pane c) st = (r, st1)"
    by (cases "executeTmux gw (sendCharCommand pane c) st")
  have log1: "execLog st1 = execLog st @ [?line]"
    using executeTmux_log[of gw "sendCharCommand pane c" st] e by simp
  show ?case
  proof (cases r)
    case (Inl err)
    have "sendOutcome gw (execLog st) [?line] (Inl err)"
      using sendOutcome_single[of gw st "sendCharCommand pane c"] e Inl by simp
    with e Inl log1 show ?thesis
      by (intro exI[of _ "[?line]"]) (simp add: sendsKeysTo_char)
  next
    case (Inr out)
    then obtain out' where g: "gw (execLog st) ?line = Inr out'"
      using e executeTmux_result[of gw "sendCharCommand pane c" st]
      by (cases "gw (execLog st) ?line") auto
    from Cons.IH[of st1] obtain lines where
      l: "execLog (snd (sendChars gw pane cs st1)) = execLog st1 @ lines"
      "list_all (sendsKeysTo pane) lines"
      "sendOutcome gw (execLog st1) lines (fst (sendChars gw pane cs st1))"
      by blast
    have "sendOutcome gw (execLog st) (?line # lines) (fst (sendChars gw pane cs st1))"
      using sendOutcome_Cons[of gw "execLog st" ?line out' lines
          "fst (sendChars gw pane cs st1)"] g l(3) log1 by simp
    with e Inr l log1 show ?thesis
      by (intro exI[of _ "?line # lines"]) (simp add: sendsKeysTo_char)
  qed
qed

lemma single_outcome:
  assumes "sendsKeysTo pane (js ''tmux '' @ c)"
  shows "\<exists>lines. execLog (snd (case executeTmux gw c st of
              (Inl e, st') \<Rightarrow> (Inl e, st') | (Inr out, st') \<Rightarrow> (Inr (), st')))
           = execLog st @ lines
      \<and> list_all (sendsKeysTo pane) lines
      \<and> sendOutcome gw (execLog st) lines (fst (case executeTmux gw c st of
              (Inl e, st') \<Rightarrow> (Inl e, st') | (Inr out, st') \<Rightarrow> (Inr (), st')))"
proof -
  obtain r st1 where e: "executeTmux gw c st = (r, st1)" by (cases "executeTmux gw c st")
  have "execLog st1 = execLog st @ [js ''tmux '' @ c]"
    using executeTmux_log[of gw c st] e by simp
  moreover have "sendOutcome gw (execLog st) [js ''tmux '' @ c]
      (case r of Inl e \<Rightarrow> Inl e | Inr out \<Rightarrow> Inr ())"
    using sendOutcome_single[of gw st c] e by (simp split: sum.splits)
  ultimately show ?thesis using e assms
    by (intro exI[of _ "[js ''tmux '' @ c]"]) (simp split: sum.splits)
qed

lemma sendToPane_outcome:
  "\<exists>lines. execLog (snd (sendToPane gw pane cmd raw noEnter st)) = execLog st @ lines
      \<and> list_all (sendsKeysTo pane) lines
      \<and> sendOutcome gw (execLog st) lines (fst (sendToPane gw pane cmd raw noEnter st))"
proof (cases "truthy noEnter")
  case True
  show ?thesis
  proof (cases "cmd \<in> set specialKeys")
    case special: True
    from single_outcome[OF sendsKeysTo_special, of gw pane cmd st] True special
    show ?thesis by (simp add: sendToPane_def)
  next
    case False
    from sendChars_outcome[of gw pane "codePoints cmd" st] True False
    show ?thesis by (simp add: sendToPane_def)
  qed
next
  case False
  show ?thesis
  proof (cases "truthy raw")
    case True
    from single_outcome[OF sendsKeysTo_raw, of gw pane cmd st] True False
    show ?thesis by (simp add: sendToPane_def)
  next
    case normal: False
    from single_outcome[OF sendsKeysTo_marked, of gw pane cmd st] normal False
    show ?thesis by (simp add: sendToPane_def)
  qed
qed

lemma failed_message_head: "hd (js ''Failed to execute tmux command: '' @ message) = 70"
  by (simp add: js_def)

lemma notAShellMessage_head: "hd (notAShellMessage pane name) = 67"
  by (simp add: notAShellMessage_def js_def)

lemma failed_is_not_ineligible:
  "js ''Failed to execute tmux command: '' @ message \<noteq> notAShellMessage pane name"
proof
  assume "js ''Failed to execute tmux command: '' @ message = notAShellMessage pane name"
  then have "hd (js ''Failed to execute tmux command: '' @ message)
      = hd (notAShellMessage pane name)" by (rule arg_cong)
  then show False by (simp only: failed_message_head notAShellMessage_head)
qed

lemma sendOutcome_not_ineligible:
  assumes "sendOutcome gw history lines r"
  shows "r \<noteq> Inl (JSError (notAShellMessage pane name))"
proof
  assume r: "r = Inl (JSError (notAShellMessage pane name))"
  with assms obtain message where
    "JSError (notAShellMessage pane name)
       = JSError (js ''Failed to execute tmux command: '' @ message)"
    unfolding sendOutcome_def by (simp only: sum.case) blast
  then show False using failed_is_not_ineligible[of message pane name] by simp
qed

section \<open>Claims about the marker parser\<close>

text \<open>
  C1: for a pending record that is not in raw mode and every captured pane text, the
  status check returns the record, and (a) the record leaves \<open>pending\<close> only if the
  start marker and the end-marker prefix both occur, the last occurrence of the
  prefix lying strictly after the last occurrence of the start marker; (b) when that
  is not so, the record is the old one with \<open>result\<close> set to the fixed
  "could not be captured" message, so its status is still \<open>pending\<close>; (c) the
  record leaves \<open>pending\<close> exactly when the two last occurrences are in that order
  and a digit follows the last occurrence of the prefix.
\<close>

theorem markers_located_last_in_order:
  assumes "mapGet (activeCommands st) commandId = Some cmd"
    and "status cmd = Pending"
    and "\<not> truthy (rawMode cmd)"
    and "fst (capturePaneContent gw (paneId cmd) 1000 False st) = Inr content"
  shows "\<exists>cmd' st'. checkCommandStatus gw commandId st = (Inr (Some cmd'), st')
      \<and> mapGet (activeCommands st') commandId = Some cmd'
      \<and> (status cmd' \<noteq> Pending \<longrightarrow>
           (\<exists>i j. lastOccurrence content startMarkerText i
              \<and> lastOccurrence content endMarkerPrefix j \<and> i < j))
      \<and> (\<not> (\<exists>i j. lastOccurrence content startMarkerText i
              \<and> lastOccurrence content endMarkerPrefix j \<and> i < j) \<longrightarrow>
           cmd' = cmd\<lparr>result := Some notCapturedMessage\<rparr>)
      \<and> (status cmd' \<noteq> Pending) =
           (\<exists>i j. lastOccurrence content startMarkerText i
              \<and> lastOccurrence content endMarkerPrefix j \<and> i < j
              \<and> takeWhile isDigit (drop (j + length endMarkerPrefix) content) \<noteq> [])"
proof -
  obtain cmd' where r: "resolveFromContent content cmd = Inr cmd'"
    using resolve_returns by blast
  note chk = checkCommandStatus_pending[OF assms(1,2,4) r]
  let ?located = "\<exists>i j. lastOccurrence content startMarkerText i
              \<and> lastOccurrence content endMarkerPrefix j \<and> i < j"
  let ?digits = "\<lambda>j. takeWhile isDigit (drop (j + length endMarkerPrefix) content)"
  have unl: "cmd' = cmd\<lparr>result := Some notCapturedMessage\<rparr>" if "\<not> ?located"
    using resolve_unlocated[OF assms(3) that] r by simp
  have res: "?located" if "status cmd' \<noteq> Pending"
  proof (rule ccontr)
    assume "\<not> ?located"
    then have "status cmd' = status cmd" using unl by simp
    with that assms(2) show False by simp
  qed
  have at: "(status cmd' \<noteq> Pending) = (?digits j \<noteq> [])"
    if "lastOccurrence content startMarkerText i" "lastOccurrence content endMarkerPrefix j"
      "i < j" for i j
    using resolve_located[OF assms(3) that] r assms(2)
    by (cases "?digits j = []") (auto simp: Let_def)
  have iff: "(status cmd' \<noteq> Pending) =
           (\<exists>i j. lastOccurrence content startMarkerText i
              \<and> lastOccurrence content endMarkerPrefix j \<and> i < j \<and> ?digits j \<noteq> [])"
  proof
    assume s: "status cmd' \<noteq> Pending"
    from res[OF s] obtain i j where l: "lastOccurrence content startMarkerText i"
      "lastOccurrence content endMarkerPrefix j" "i < j" by blast
    with at[OF l] s show "\<exists>i j. lastOccurrence content startMarkerText i
              \<and> lastOccurrence content endMarkerPrefix j \<and> i < j \<and> ?digits j \<noteq> []"
      by blast
  next
    assume "\<exists>i j. lastOccurrence content startMarkerText i
              \<and> lastOccurrence content endMarkerPrefix j \<and> i < j \<and> ?digits j \<noteq> []"
    then obtain i j where l: "lastOccurrence content startMarkerText i"
      "lastOccurrence content endMarkerPrefix j" "i < j" and d: "?digits j \<noteq> []" by blast
    from at[OF l] d show "status cmd' \<noteq> Pending" by simp
  qed
  define st' where "st' = (snd (capturePaneContent gw (paneId cmd) 1000 False st))
        \<lparr>activeCommands := mapSet commandId cmd' (activeCommands st)\<rparr>"
  have c1: "checkCommandStatus gw commandId st = (Inr (Some cmd'), st')"
    using chk by (simp add: st'_def)
  have c2: "mapGet (activeCommands st') commandId = Some cmd'"
    by (simp add: st'_def mapGet_mapSet_same)
  have c3: "status cmd' \<noteq> Pending \<longrightarrow> ?located" using res by blast
  have c4: "\<not> ?located \<longrightarrow> cmd' = cmd\<lparr>result := Some notCapturedMessage\<rparr>"
    using unl by blast
  from c1 c2 c3 c4 iff show ?thesis by blast
qed

theorem markers_located_last_in_order_witness:
  "fst (checkCommandStatus
          (answering (js ''$ __mcp_start\<newline>TMUX_MCP_START\<newline>$ sleep 60''))
          (js ''id4'') (tracking runningExecution))
     = Inr (Some (runningExecution\<lparr>result := Some notCapturedMessage\<rparr>))
   \<and> (\<exists>cmd'. fst (checkCommandStatus
          (answering (js ''TMUX_MCP_START\<newline>$ false\<newline>TMUX_MCP_DONE_1\<newline>$ __mcp_start\<newline>TMUX_MCP_START\<newline>$ echo hi\<newline>hi\<newline>TMUX_MCP_DONE_0\<newline>$ ''))
          (js ''id1'') (tracking exampleExecution)) = Inr (Some cmd')
        \<and> status cmd' \<noteq> Pending)"
proof -
  have k4: "id' runningExecution = js ''id4''"
    by (simp add: runningExecution_def newExecution_def)
  note get4 = tracking_get[of runningExecution, unfolded k4]
  have pend4: "status runningExecution = Pending" "\<not> truthy (rawMode runningExecution)"
    by (simp_all add: runningExecution_def newExecution_def truthy_def jsOr_def)
  let ?running = "js ''$ __mcp_start\<newline>TMUX_MCP_START\<newline>$ sleep 60''"
  have t: "trim ?running = ?running" by (simp add: trim_def js_def isWhiteSpace_def)
  have n: "lastIndexOf ?running endMarkerPrefix = - 1" by (simp add: search_eval)
  from markers_located_last_in_order[OF get4 pend4 answering_capture[OF t]]
    not_located_without_end[OF n]
  have first: "fst (checkCommandStatus (answering ?running) (js ''id4'') (tracking runningExecution))
     = Inr (Some (runningExecution\<lparr>result := Some notCapturedMessage\<rparr>))"
    by auto
  have k: "id' exampleExecution = js ''id1''" by (simp add: exampleExecution_def newExecution_def)
  note get = tracking_get[of exampleExecution, unfolded k]
  let ?out = "js ''TMUX_MCP_START\<newline>$ false\<newline>TMUX_MCP_DONE_1\<newline>$ __mcp_start\<newline>TMUX_MCP_START\<newline>$ echo hi\<newline>hi\<newline>TMUX_MCP_DONE_0\<newline>$ ''"
  let ?content = "js ''TMUX_MCP_START\<newline>$ false\<newline>TMUX_MCP_DONE_1\<newline>$ __mcp_start\<newline>TMUX_MCP_START\<newline>$ echo hi\<newline>hi\<newline>TMUX_MCP_DONE_0\<newline>$''"
  have t2: "trim ?out = ?content" by (simp add: trim_def js_def isWhiteSpace_def)
  have s: "lastIndexOf ?content startMarkerText = int 53" by (simp add: search_eval)
  have e: "lastIndexOf ?content endMarkerPrefix = int 81" by (simp add: search_eval)
  have d: "takeWhile isDigit (drop (81 + length endMarkerPrefix) ?content) \<noteq> []"
    by (simp add: js_def endMarkerPrefix_def isDigit_def)
  have located: "\<exists>i j. lastOccurrence ?content startMarkerText i
      \<and> lastOccurrence ?content endMarkerPrefix j \<and> i < j
      \<and> takeWhile isDigit (drop (j + length endMarkerPrefix) ?content) \<noteq> []"
    using lastOccurrenceI[OF s] lastOccurrenceI[OF e] d
    by (intro exI[of _ 53] exI[of _ 81]) simp
  from markers_located_last_in_order[OF get example_pending answering_capture[OF t2]]
  obtain cmd' st' where
    a: "checkCommandStatus (answering ?out) (js ''id1'') (tracking exampleExecution) = (Inr (Some cmd'), st')"
    and b: "(status cmd' \<noteq> Pending) = (\<exists>i j. lastOccurrence ?content startMarkerText i
      \<and> lastOccurrence ?content endMarkerPrefix j \<and> i < j
      \<and> takeWhile isDigit (drop (j + length endMarkerPrefix) ?content) \<noteq> [])"
    by blast
  from b located have "status cmd' \<noteq> Pending" by simp
  with a first show ?thesis by simp
qed

text \<open>
  C2: when both markers are located in order and digits follow the last end-marker
  prefix, the record's \<open>exitCode\<close> is the Number that \<open>parseInt\<close> returns for those
  digits: the double nearest to the integer they spell, which is not negative, and
  that integer itself when it is below \<open>2^53\<close>. The status is \<open>completed\<close> when
  the integer is 0 and \<open>error\<close> otherwise.
\<close>

theorem exit_code_sets_status:
  assumes "mapGet (activeCommands st) commandId = Some cmd"
    and "status cmd = Pending"
    and "\<not> truthy (rawMode cmd)"
    and "fst (capturePaneContent gw (paneId cmd) 1000 False st) = Inr content"
    and "lastOccurrence content startMarkerText i"
    and "lastOccurrence content endMarkerPrefix j"
    and "i < j"
    and "digits = takeWhile isDigit (drop (j + length endMarkerPrefix) content)"
    and "digits \<noteq> []"
  shows "\<exists>cmd' st'. checkCommandStatus gw commandId st = (Inr (Some cmd'), st')
      \<and> mapGet (activeCommands st') commandId = Some cmd'
      \<and> exitCode cmd' = Some (roundToDouble (of_int (mathInt digits)))
      \<and> 0 \<le> mathInt digits
      \<and> (mathInt digits < 2 ^ 53 \<longrightarrow> exitCode cmd' = Some (Finite (of_int (mathInt digits))))
      \<and> status cmd' = (if mathInt digits = 0 then Completed else Error)"
proof -
  from resolve_located[OF assms(3,5,6,7)] assms(8,9)
  obtain cmd' where r: "resolveFromContent content cmd = Inr cmd'"
    and e: "exitCode cmd' = Some (parseInt digits)"
    and s: "status cmd' = (if parseInt digits = Finite 0 then Completed else Error)"
    by (simp add: Let_def)
  have p: "parseInt digits = roundToDouble (of_int (mathInt digits))"
    unfolding assms(8) by (rule parseInt_digits)
  have z: "(parseInt digits = Finite 0) = (mathInt digits = 0)"
    unfolding assms(8) by (rule parseInt_zero_iff)
  have n: "0 \<le> mathInt digits"
    unfolding assms(8) by (rule mathInt_nonneg)
  have x: "mathInt digits < 2 ^ 53 \<longrightarrow> exitCode cmd' = Some (Finite (of_int (mathInt digits)))"
    using e p roundToDouble_exact[OF n] by simp
  define st' where "st' = snd (checkCommandStatus gw commandId st)"
  from checkCommandStatus_pending[OF assms(1,2,4) r]
  have c1: "checkCommandStatus gw commandId st = (Inr (Some cmd'), st')"
    and c2: "mapGet (activeCommands st') commandId = Some cmd'"
    by (auto simp: st'_def mapGet_mapSet_same)
  from c1 c2 e p n x s z show ?thesis by auto
qed

theorem exit_code_sets_status_witness:
  "(\<exists>cmd' st'. checkCommandStatus
        (answering (js ''TMUX_MCP_START\<newline>$ false\<newline>TMUX_MCP_DONE_1\<newline>$ ''))
        (js ''id1'') (tracking exampleExecution) = (Inr (Some cmd'), st')
      \<and> exitCode cmd' = Some (Finite 1) \<and> status cmd' = Error)
   \<and> (\<exists>cmd' st'. checkCommandStatus
        (answering (js ''TMUX_MCP_START\<newline>$ true\<newline>TMUX_MCP_DONE_0\<newline>$ ''))
        (js ''id1'') (tracking exampleExecution) = (Inr (Some cmd'), st')
      \<and> exitCode cmd' = Some (Finite 0) \<and> status cmd' = Completed)
   \<and> (\<exists>cmd' st'. checkCommandStatus
        (answering (js ''TMUX_MCP_START\<newline>$ false\<newline>TMUX_MCP_DONE_9007199254740993\<newline>$ ''))
        (js ''id1'') (tracking exampleExecution) = (Inr (Some cmd'), st')
      \<and> exitCode cmd' = Some (Finite 9007199254740992) \<and> status cmd' = Error)"
proof -
  have k: "id' exampleExecution = js ''id1''" by (simp add: exampleExecution_def newExecution_def)
  note get = tracking_get[of exampleExecution, unfolded k]
  let ?out1 = "js ''TMUX_MCP_START\<newline>$ false\<newline>TMUX_MCP_DONE_1\<newline>$ ''"
  let ?c1 = "js ''TMUX_MCP_START\<newline>$ false\<newline>TMUX_MCP_DONE_1\<newline>$''"
  have t1: "trim ?out1 = ?c1" by (simp add: trim_def js_def isWhiteSpace_def)
  have s1: "lastIndexOf ?c1 startMarkerText = int 0" by (simp add: search_eval)
  have e1: "lastIndexOf ?c1 endMarkerPrefix = int 23" by (simp add: search_eval)
  have d1: "js ''1'' = takeWhile isDigit (drop (23 + length endMarkerPrefix) ?c1)"
    by (simp add: js_def endMarkerPrefix_def isDigit_def)
  have m1: "mathInt (js ''1'') = 1" by (simp add: mathInt_def js_def)
  have n1: "js ''1'' \<noteq> []" by (simp add: js_def)
  let ?out0 = "js ''TMUX_MCP_START\<newline>$ true\<newline>TMUX_MCP_DONE_0\<newline>$ ''"
  let ?c0 = "js ''TMUX_MCP_START\<newline>$ true\<newline>TMUX_MCP_DONE_0\<newline>$''"
  have t0: "trim ?out0 = ?c0" by (simp add: trim_def js_def isWhiteSpace_def)
  have s0: "lastIndexOf ?c0 startMarkerText = int 0" by (simp add: search_eval)
  have e0: "lastIndexOf ?c0 endMarkerPrefix = int 22" by (simp add: search_eval)
  have d0: "js ''0'' = takeWhile isDigit (drop (22 + length endMarkerPrefix) ?c0)"
    by (simp add: js_def endMarkerPrefix_def isDigit_def)
  have m0: "mathInt (js ''0'') = 0" by (simp add: mathInt_def js_def)
  have n0: "js ''0'' \<noteq> []" by (simp add: js_def)
  let ?out9 = "js ''TMUX_MCP_START\<newline>$ false\<newline>TMUX_MCP_DONE_9007199254740993\<newline>$ ''"
  let ?c9 = "js ''TMUX_MCP_START\<newline>$ false\<newline>TMUX_MCP_DONE_9007199254740993\<newline>$''"
  have t9: "trim ?out9 = ?c9" by (simp add: trim_def js_def isWhiteSpace_def)
  have s9: "lastIndexOf ?c9 startMarkerText = int 0" by (simp add: search_eval)
  have e9: "lastIndexOf ?c9 endMarkerPrefix = int 23" by (simp add: search_eval)
  have d9: "js ''9007199254740993'' = takeWhile isDigit (drop (23 + length endMarkerPrefix) ?c9)"
    by (simp add: js_def endMarkerPrefix_def isDigit_def)
  have m9: "mathInt (js ''9007199254740993'') = 9007199254740993"
    by (simp add: mathInt_def js_def)
  have n9: "js ''9007199254740993'' \<noteq> []" by (simp add: js_def)
  have r9: "roundToDouble 9007199254740993 = Finite 9007199254740992"
    by (simp add: round_eval)
  have o1: "(0::nat) < 23" and o0: "(0::nat) < 22" by simp_all
  from exit_code_sets_status[OF get example_pending answering_capture[OF t1]
      lastOccurrenceI[OF s1] lastOccurrenceI[OF e1] o1 d1 n1]
  have w1: "\<exists>cmd' st'. checkCommandStatus (answering ?out1) (js ''id1'')
        (tracking exampleExecution) = (Inr (Some cmd'), st')
      \<and> exitCode cmd' = Some (Finite 1) \<and> status cmd' = Error"
    unfolding m1 by auto
  from exit_code_sets_status[OF get example_pending answering_capture[OF t0]
      lastOccurrenceI[OF s0] lastOccurrenceI[OF e0] o0 d0 n0]
  have w0: "\<exists>cmd' st'. checkCommandStatus (answering ?out0) (js ''id1'')
        (tracking exampleExecution) = (Inr (Some cmd'), st')
      \<and> exitCode cmd' = Some (Finite 0) \<and> status cmd' = Completed"
    unfolding m0 by auto
  from exit_code_sets_status[OF get example_pending answering_capture[OF t9]
      lastOccurrenceI[OF s9] lastOccurrenceI[OF e9] o1 d9 n9]
  have w9: "\<exists>cmd' st'. checkCommandStatus (answering ?out9) (js ''id1'')
        (tracking exampleExecution) = (Inr (Some cmd'), st')
      \<and> exitCode cmd' = Some (Finite 9007199254740992) \<and> status cmd' = Error"
    unfolding m9 of_int_numeral r9 by auto
  from w1 w0 w9 show ?thesis by blast
qed

text \<open>
  C3: when both markers are located in order and no digit follows the last end-marker
  prefix, the status check returns normally with the record as it was (still
  \<open>pending\<close>, no \<open>exitCode\<close>), and the map is unchanged.
\<close>

theorem no_digits_stays_pending:
  assumes "mapGet (activeCommands st) commandId = Some cmd"
    and "status cmd = Pending"
    and "\<not> truthy (rawMode cmd)"
    and "fst (capturePaneContent gw (paneId cmd) 1000 False st) = Inr content"
    and "lastOccurrence content startMarkerText i"
    and "lastOccurrence content endMarkerPrefix j"
    and "i < j"
    and "takeWhile isDigit (drop (j + length endMarkerPrefix) content) = []"
  shows "\<exists>st'. checkCommandStatus gw commandId st = (Inr (Some cmd), st')
      \<and> activeCommands st' = activeCommands st"
proof -
  from resolve_located[OF assms(3,5,6,7)] assms(8)
  have r: "resolveFromContent content cmd = Inr cmd" by (simp add: Let_def)
  from checkCommandStatus_pending[OF assms(1,2,4) r] show ?thesis
    by (simp add: mapSet_same_value[OF assms(1)])
qed

theorem no_digits_stays_pending_witness:
  "\<exists>st'. checkCommandStatus
        (answering (js ''TMUX_MCP_START\<newline>$ cat notes\<newline>TMUX_MCP_DONE_soon''))
        (js ''id1'') (tracking exampleExecution) = (Inr (Some exampleExecution), st')
      \<and> activeCommands st' = activeCommands (tracking exampleExecution)"
proof -
  have k: "id' exampleExecution = js ''id1''" by (simp add: exampleExecution_def newExecution_def)
  note get = tracking_get[of exampleExecution, unfolded k]
  let ?c = "js ''TMUX_MCP_START\<newline>$ cat notes\<newline>TMUX_MCP_DONE_soon''"
  have t: "trim ?c = ?c" by (simp add: trim_def js_def isWhiteSpace_def)
  have s: "lastIndexOf ?c startMarkerText = int 0" by (simp add: search_eval)
  have e: "lastIndexOf ?c endMarkerPrefix = int 27" by (simp add: search_eval)
  have d: "takeWhile isDigit (drop (27 + length endMarkerPrefix) ?c) = []"
    by (simp add: js_def endMarkerPrefix_def isDigit_def)
  have o: "(0::nat) < 27" by simp
  from no_digits_stays_pending[OF get example_pending answering_capture[OF t]
      lastOccurrenceI[OF s] lastOccurrenceI[OF e] o d]
  show ?thesis .
qed

section \<open>The extracted output\<close>

lemma indexUp_unit:
  "indexUp s [c] k = (if c \<in> set s then int (k + length (takeWhile (\<lambda>x. x \<noteq> c) s)) else - 1)"
  by (induction s arbitrary: k) auto

lemma indexOf_unit:
  "indexOf s [c] = (if c \<in> set s then int (length (takeWhile (\<lambda>x. x \<noteq> c) s)) else - 1)"
  by (simp add: indexOf_def indexUp_unit)

lemma substring_between:
  "a \<le> b \<Longrightarrow> b \<le> length s \<Longrightarrow> substring s (int a) (int b) = take (b - a) (drop a s)"
  by (simp add: substring_def Let_def min_def max_def nat_diff_distrib')

lemma discard_first_line:
  assumes "10 \<in> set s"
  shows "substringFrom s (indexOf s [10] + 1) = discardFirstLine s"
proof -
  let ?k = "length (takeWhile (\<lambda>x. x \<noteq> 10) s)"
  have "takeWhile (\<lambda>x. x \<noteq> 10) s \<noteq> s" using assms
    by (metis (mono_tags, lifting) takeWhile_eq_all_conv)
  then have "?k \<noteq> length s"
    by (metis takeWhile_eq_take take_all order_refl)
  moreover have "?k \<le> length s" by (rule length_takeWhile_le)
  ultimately have "?k < length s" by simp
  then have le: "Suc ?k \<le> length s" by simp
  have "indexOf s [10] + 1 = int (Suc ?k)" using assms by (simp add: indexOf_unit)
  then have "substringFrom s (indexOf s [10] + 1) = drop (Suc ?k) s"
    using substringFrom_drop[OF le] by (simp only:)
  also have "\<dots> = drop 1 (drop ?k s)" by simp
  also have "\<dots> = discardFirstLine s"
    by (simp add: discardFirstLine_def dropWhile_eq_drop)
  finally show ?thesis .
qed

text \<open>Without a line break nothing is discarded.\<close>

lemma keep_single_line:
  assumes "10 \<notin> set s"
  shows "substringFrom s (indexOf s [10] + 1) = s"
  using assms substringFrom_drop[of 0 s] by (simp add: indexOf_unit)

text \<open>
  When the markers do not overlap and the trimmed text between them has a line break,
  the result is the specified output.
\<close>

lemma output_as_specified:
  assumes get: "mapGet (activeCommands st) commandId = Some cmd"
    and pend: "status cmd = Pending"
    and notraw: "\<not> truthy (rawMode cmd)"
    and cap: "fst (capturePaneContent gw (paneId cmd) 1000 False st) = Inr content"
    and s: "lastOccurrence content startMarkerText i"
    and e: "lastOccurrence content endMarkerPrefix j"
    and o: "i + length startMarkerText \<le> j"
    and n: "takeWhile isDigit (drop (j + length endMarkerPrefix) content) \<noteq> []"
    and nl: "10 \<in> set (trim (take (j - (i + length startMarkerText))
                (drop (i + length startMarkerText) content)))"
  shows "\<exists>cmd' st'. checkCommandStatus gw commandId st = (Inr (Some cmd'), st')
           \<and> result cmd' = Some (specifiedOutput content i j)"
proof -
  have "occursAt content endMarkerPrefix j" using e by (simp add: lastOccurrence_def)
  then have jl: "j \<le> length content" by (rule occursAt_le)
  have "length startMarkerText = 14" by (simp add: startMarkerText_def js_def)
  with o have ij: "i < j" by simp
  have sub: "substring content (int i + int (length startMarkerText)) (int j)
      = take (j - (i + length startMarkerText)) (drop (i + length startMarkerText) content)"
    using substring_between[OF o jl] by simp
  from resolve_located[OF notraw s e ij] n
  obtain cmd' where r: "resolveFromContent content cmd = Inr cmd'"
    and "result cmd' = Some (specifiedOutput content i j)"
    by (simp add: Let_def sub discard_first_line[OF nl] specifiedOutput_def)
  with checkCommandStatus_pending[OF get pend cap r] show ?thesis by simp
qed

text \<open>The scenario of the specification: \<open>echo hi\<close> resolves to \<open>hi\<close>.\<close>

lemma scenario_echo_hi:
  "fst (checkCommandStatus
     (answering (js ''...TMUX_MCP_START\<newline>echo hi\<newline>hi\<newline>TMUX_MCP_DONE_0\<newline>$ ''))
     (js ''id1'') (tracking exampleExecution))
   = Inr (Some (exampleExecution\<lparr>status := Completed, exitCode := Some (Finite 0),
                  result := Some (js ''hi'')\<rparr>))"
proof -
  have k: "id' exampleExecution = js ''id1''" by (simp add: exampleExecution_def newExecution_def)
  note get = tracking_get[of exampleExecution, unfolded k]
  let ?out = "js ''...TMUX_MCP_START\<newline>echo hi\<newline>hi\<newline>TMUX_MCP_DONE_0\<newline>$ ''"
  let ?c = "js ''...TMUX_MCP_START\<newline>echo hi\<newline>hi\<newline>TMUX_MCP_DONE_0\<newline>$''"
  have t: "trim ?out = ?c" by (simp add: trim_def js_def isWhiteSpace_def)
  have s: "lastIndexOf ?c startMarkerText = int 3" by (simp add: search_eval)
  have e: "lastIndexOf ?c endMarkerPrefix = int 29" by (simp add: search_eval)
  have d: "takeWhile isDigit (drop (29 + length endMarkerPrefix) ?c) = js ''0''"
    by (simp add: js_def endMarkerPrefix_def isDigit_def)
  have p: "parseInt (js ''0'') = Finite 0"
    by (simp add: parseInt_def mathInt_def js_def isDigit_def roundToDouble_def)
  have n: "js ''0'' \<noteq> []" by (simp add: js_def)
  have sub: "substring ?c (int 3 + int (length startMarkerText)) (int 29)
      = js ''\<newline>echo hi\<newline>hi\<newline>''"
    by (simp add: substring_def startMarkerText_def js_def)
  have oc: "trim (substring ?c (int 3 + int (length startMarkerText)) (int 29))
      = js ''echo hi\<newline>hi''"
    unfolding sub by (simp add: trim_def js_def isWhiteSpace_def)
  have ix: "indexOf (js ''echo hi\<newline>hi'') [10] + 1 = 8"
    by (simp add: indexOf_def js_def)
  have r: "trim (substringFrom (js ''echo hi\<newline>hi'') (indexOf (js ''echo hi\<newline>hi'') [10] + 1))
      = js ''hi''"
    unfolding ix by (simp add: substringFrom_def substring_def trim_def js_def isWhiteSpace_def)
  have o: "(3::nat) < 29" by simp
  from checkCommandStatus_resolved[OF get example_pending answering_capture[OF t] s e o d n oc r]
  show ?thesis by (simp add: p)
qed

text \<open>
  C4: the result of a resolution is claimed to be the text between the markers,
  trimmed, with its first line (the echoed command) discarded and the rest trimmed.
  The code keeps the whole text when it is a single line: for a command that prints
  nothing, the pane shows only the echoed command between the markers, and the
  record's result is that echo, \<open>$ true\<close>, where the claim's output is empty.
\<close>

theorem silent_command_result_is_echo:
  "fst (checkCommandStatus
     (answering (js ''$ __mcp_start\<newline>TMUX_MCP_START\<newline>$ true\<newline>TMUX_MCP_DONE_0\<newline>$ ''))
     (js ''id2'') (tracking silentExecution))
   = Inr (Some (silentExecution\<lparr>status := Completed, exitCode := Some (Finite 0),
                  result := Some (js ''$ true'')\<rparr>))
   \<and> lastIndexOf (js ''$ __mcp_start\<newline>TMUX_MCP_START\<newline>$ true\<newline>TMUX_MCP_DONE_0\<newline>$'')
         startMarkerText = 14
   \<and> lastIndexOf (js ''$ __mcp_start\<newline>TMUX_MCP_START\<newline>$ true\<newline>TMUX_MCP_DONE_0\<newline>$'')
         endMarkerPrefix = 36
   \<and> specifiedOutput (js ''$ __mcp_start\<newline>TMUX_MCP_START\<newline>$ true\<newline>TMUX_MCP_DONE_0\<newline>$'')
         14 36 = []"
proof -
  have k: "id' silentExecution = js ''id2''" by (simp add: silentExecution_def newExecution_def)
  note get = tracking_get[of silentExecution, unfolded k]
  have pend: "status silentExecution = Pending" "\<not> truthy (rawMode silentExecution)"
    by (simp_all add: silentExecution_def newExecution_def truthy_def jsOr_def)
  let ?out = "js ''$ __mcp_start\<newline>TMUX_MCP_START\<newline>$ true\<newline>TMUX_MCP_DONE_0\<newline>$ ''"
  let ?c = "js ''$ __mcp_start\<newline>TMUX_MCP_START\<newline>$ true\<newline>TMUX_MCP_DONE_0\<newline>$''"
  have t: "trim ?out = ?c" by (simp add: trim_def js_def isWhiteSpace_def)
  have s: "lastIndexOf ?c startMarkerText = int 14" by (simp add: search_eval)
  have e: "lastIndexOf ?c endMarkerPrefix = int 36" by (simp add: search_eval)
  have d: "takeWhile isDigit (drop (36 + length endMarkerPrefix) ?c) = js ''0''"
    by (simp add: js_def endMarkerPrefix_def isDigit_def)
  have p: "parseInt (js ''0'') = Finite 0"
    by (simp add: parseInt_def mathInt_def js_def isDigit_def roundToDouble_def)
  have n: "js ''0'' \<noteq> []" by (simp add: js_def)
  have sub: "substring ?c (int 14 + int (length startMarkerText)) (int 36)
      = js ''\<newline>$ true\<newline>''"
    by (simp add: substring_def startMarkerText_def js_def)
  have oc: "trim (substring ?c (int 14 + int (length startMarkerText)) (int 36)) = js ''$ true''"
    unfolding sub by (simp add: trim_def js_def isWhiteSpace_def)
  have ix: "indexOf (js ''$ true'') [10] + 1 = 0"
    by (simp add: indexOf_def js_def)
  have r: "trim (substringFrom (js ''$ true'') (indexOf (js ''$ true'') [10] + 1)) = js ''$ true''"
    unfolding ix by (simp add: substringFrom_def substring_def trim_def js_def isWhiteSpace_def)
  have o: "(14::nat) < 36" by simp
  from checkCommandStatus_resolved[OF get pend answering_capture[OF t] s e o d n oc r]
  have code: "fst (checkCommandStatus (answering ?out) (js ''id2'') (tracking silentExecution))
     = Inr (Some (silentExecution\<lparr>status := Completed, exitCode := Some (Finite 0),
                  result := Some (js ''$ true'')\<rparr>))"
    by (simp add: p)
  have "take (36 - (14 + length startMarkerText)) (drop (14 + length startMarkerText) ?c)
      = js ''\<newline>$ true\<newline>''"
    by (simp add: startMarkerText_def js_def)
  then have spec: "specifiedOutput ?c 14 36 = []"
    by (simp add: specifiedOutput_def discardFirstLine_def trim_def js_def isWhiteSpace_def)
  from code s e spec show ?thesis by simp
qed

section \<open>Raw-mode records\<close>

lemma checkCommandStatus_capture_fails:
  assumes "mapGet (activeCommands st) commandId = Some cmd"
    and "status cmd = Pending"
    and "fst (capturePaneContent gw (paneId cmd) 1000 False st) = Inl e"
  shows "checkCommandStatus gw commandId st =
     (Inl e, snd (capturePaneContent gw (paneId cmd) 1000 False st))"
  using assms
  by (cases "capturePaneContent gw (paneId cmd) 1000 False st")
    (simp add: checkCommandStatus_def)

text \<open>
  C6: for a pending record in raw mode, whatever the gateway answers, the status check
  leaves the record in the map with its status \<open>pending\<close> and its \<open>exitCode\<close>
  untouched; and for every captured pane content it returns the record with \<open>result\<close>
  set to the one fixed advisory text, which is then the record in the map.
\<close>

theorem raw_mode_check_is_inert:
  assumes get: "mapGet (activeCommands st) commandId = Some cmd"
    and pend: "status cmd = Pending"
    and raw: "truthy (rawMode cmd)"
  shows "\<exists>cmd'. mapGet (activeCommands (snd (checkCommandStatus gw commandId st))) commandId
               = Some cmd'
     \<and> status cmd' = Pending \<and> exitCode cmd' = exitCode cmd
     \<and> (\<forall>content. fst (capturePaneContent gw (paneId cmd) 1000 False st) = Inr content \<longrightarrow>
           fst (checkCommandStatus gw commandId st)
             = Inr (Some (cmd\<lparr>result := Some rawModeAdvice\<rparr>))
           \<and> cmd' = cmd\<lparr>result := Some rawModeAdvice\<rparr>)"
proof (cases "fst (capturePaneContent gw (paneId cmd) 1000 False st)")
  case (Inl e)
  from checkCommandStatus_capture_fails[OF get pend Inl]
  have "activeCommands (snd (checkCommandStatus gw commandId st)) = activeCommands st"
    by (simp add: capturePaneContent_frame)
  with get pend Inl show ?thesis by simp
next
  case (Inr content)
  from checkCommandStatus_pending[OF get pend Inr resolve_raw[OF raw]]
  show ?thesis using Inr pend by (simp add: mapGet_mapSet_same)
qed

theorem raw_mode_check_is_inert_witness:
  "fst (checkCommandStatus
     (answering (js ''TMUX_MCP_START\<newline>$ true\<newline>TMUX_MCP_DONE_0''))
     (js ''id3'') (tracking rawExecution))
   = Inr (Some (rawExecution\<lparr>result := Some rawModeAdvice\<rparr>))
   \<and> status (rawExecution\<lparr>result := Some rawModeAdvice\<rparr>) = Pending
   \<and> exitCode (rawExecution\<lparr>result := Some rawModeAdvice\<rparr>) = None"
proof -
  have k: "id' rawExecution = js ''id3''" by (simp add: rawExecution_def newExecution_def)
  note get = tracking_get[of rawExecution, unfolded k]
  have pend: "status rawExecution = Pending" "truthy (rawMode rawExecution)"
    by (simp_all add: rawExecution_def newExecution_def truthy_def jsOr_def)
  let ?c = "js ''TMUX_MCP_START\<newline>$ true\<newline>TMUX_MCP_DONE_0''"
  have t: "trim ?c = ?c" by (simp add: trim_def js_def isWhiteSpace_def)
  from raw_mode_check_is_inert[OF get pend, of "answering ?c"] answering_capture[OF t]
  show ?thesis by (auto simp: rawExecution_def newExecution_def)
qed

section \<open>Eviction of stale records\<close>

lemma mapDelete_filter:
  "distinct (map fst m) \<Longrightarrow> mapDelete k m = filter (\<lambda>(k', v). k' \<noteq> k) m"
proof (induction m)
  case Nil
  then show ?case by simp
next
  case (Cons p m)
  obtain k' v where p: "p = (k', v)" by (cases p)
  show ?case
  proof (cases "k' = k")
    case True
    then have "k \<notin> fst ` set m" using Cons.prems p by simp
    then have "filter (\<lambda>(k', v). k' \<noteq> k) m = m"
      by (force simp: filter_id_conv)
    with True p show ?thesis by simp
  next
    case False
    with Cons p show ?thesis by simp
  qed
qed

lemma distinct_keys_filter: "distinct (map fst m) \<Longrightarrow> distinct (map fst (filter Q m))"
  by (rule distinct_map_filter)

lemma cleanup_fold:
  "distinct (map fst acc) \<Longrightarrow>
   fold (\<lambda>(k, cmd) m. if P cmd then mapDelete k m else m) xs acc
     = filter (\<lambda>(k, v). k \<notin> fst ` {(k', cmd) \<in> set xs. P cmd}) acc"
proof (induction xs arbitrary: acc)
  case Nil
  then show ?case by simp
next
  case (Cons x xs)
  obtain k cmd where x: "x = (k, cmd)" by (cases x)
  show ?case
  proof (cases "P cmd")
    case True
    have d: "distinct (map fst (mapDelete k acc))"
      using Cons.prems by (simp add: mapDelete_filter distinct_keys_filter)
    have "fold (\<lambda>(k, cmd) m. if P cmd then mapDelete k m else m) (x # xs) acc
        = fold (\<lambda>(k, cmd) m. if P cmd then mapDelete k m else m) xs (mapDelete k acc)"
      using True x by simp
    also have "\<dots> = filter (\<lambda>(k, v). k \<notin> fst ` {(k', cmd) \<in> set xs. P cmd}) (mapDelete k acc)"
      by (rule Cons.IH[OF d])
    also have "\<dots> = filter (\<lambda>(k', v). k' \<notin> insert k (fst ` {(k', cmd) \<in> set xs. P cmd})) acc"
      using Cons.prems by (auto simp: mapDelete_filter intro!: filter_cong)
    also have "insert k (fst ` {(k', cmd) \<in> set xs. P cmd})
        = fst ` {(k', cmd) \<in> set (x # xs). P cmd}"
      using True x by force
    finally show ?thesis .
  next
    case False
    have "{(k', cmd) \<in> set (x # xs). P cmd} = {(k', cmd) \<in> set xs. P cmd}"
      using False x by auto
    with Cons False x show ?thesis by simp
  qed
qed

lemma cleanup_filter:
  assumes "wellFormed st"
  shows "activeCommands (cleanupOldCommands now maxAgeMinutes st)
     = filter (\<lambda>(k, cmd). \<not> isStale now maxAgeMinutes cmd) (activeCommands st)"
proof -
  have d: "distinct (map fst (activeCommands st))" using assms by (simp add: wellFormed_def)
  have "filter (\<lambda>(k, v). k \<notin> fst ` {(k', cmd) \<in> set (activeCommands st). isStale now maxAgeMinutes cmd})
          (activeCommands st)
      = filter (\<lambda>(k, cmd). \<not> isStale now maxAgeMinutes cmd) (activeCommands st)"
  proof (rule filter_cong[OF refl])
    fix p assume p: "p \<in> set (activeCommands st)"
    obtain k v where kv: "p = (k, v)" by (cases p)
    have "(k \<in> fst ` {(k', cmd) \<in> set (activeCommands st). isStale now maxAgeMinutes cmd})
        = isStale now maxAgeMinutes v"
    proof
      assume "k \<in> fst ` {(k', cmd) \<in> set (activeCommands st). isStale now maxAgeMinutes cmd}"
      then obtain v' where "(k, v') \<in> set (activeCommands st)" "isStale now maxAgeMinutes v'"
        by auto
      moreover from this p kv d have "v' = v"
        by (meson eq_key_imp_eq_value)
      ultimately show "isStale now maxAgeMinutes v" by simp
    next
      assume "isStale now maxAgeMinutes v"
      with p kv show "k \<in> fst ` {(k', cmd) \<in> set (activeCommands st). isStale now maxAgeMinutes cmd}"
        by force
    qed
    then show "(case p of (k, v) \<Rightarrow> k \<notin> fst ` {(k', cmd) \<in> set (activeCommands st). isStale now maxAgeMinutes cmd})
       = (case p of (k, cmd) \<Rightarrow> \<not> isStale now maxAgeMinutes cmd)"
      using kv by simp
  qed
  then show ?thesis by (simp add: cleanupOldCommands_def cleanup_fold[OF d])
qed

lemma mapGet_filter:
  "distinct (map fst m) \<Longrightarrow>
   mapGet (filter Q m) k =
     (case mapGet m k of None \<Rightarrow> None | Some v \<Rightarrow> if Q (k, v) then Some v else None)"
proof (induction m)
  case Nil
  then show ?case by simp
next
  case (Cons p m)
  obtain k' v where p: "p = (k', v)" by (cases p)
  have none: "mapGet (filter Q m) k = None" if "k \<notin> fst ` set m" for k
    using that by (induction m) auto
  show ?case
  proof (cases "k' = k")
    case True
    then have "k \<notin> fst ` set m" using Cons.prems p by simp
    with True p none show ?thesis by simp
  next
    case False
    with Cons p show ?thesis by simp
  qed
qed

text \<open>
  The ages of the three records of \<open>agedState\<close> at two times, as line 382 computes
  them: two hours later, and one second after the third record started. One second
  is a sixtieth of a minute, and its age is the double nearest to that.
\<close>

lemma ages_after_two_hours:
  "ageMinutes 7200000 (newExecution (js ''a'') 0 p c r n\<lparr>status := s, exitCode := x, result := y\<rparr>)
     = Finite 120"
  "ageMinutes 7200000 (newExecution (js ''b'') 0 p c r n) = Finite 120"
  "ageMinutes 7200000 (newExecution (js ''c'') 7020000 p c r n\<lparr>status := s, exitCode := x, result := y\<rparr>)
     = Finite 3"
  by (simp_all add: ageMinutes_def newExecution_def round_eval)

lemma age_of_one_second:
  "ageMinutes 7021000 (newExecution (js ''c'') 7020000 p c r n\<lparr>status := s, exitCode := x, result := y\<rparr>)
     = Finite (4803839602528529 / 288230376151711744)"
  by (simp add: ageMinutes_def newExecution_def round_eval)

lemma age_of_two_hours_and_one_second:
  "ageMinutes 7021000 (newExecution (js ''a'') 0 p c r n\<lparr>status := s, exitCode := x, result := y\<rparr>)
     = Finite (8234315881189649 / 70368744177664)"
  by (simp add: ageMinutes_def newExecution_def round_eval)

text \<open>
  C7: for every state whose map holds each key once, every time and every threshold
  (a Number: finite, infinite or NaN), cleaning up keeps, in their order, exactly the
  entries that are pending or whose age does not exceed the threshold; so a lookup
  afterwards finds a record if and only if it was there and is not both non-pending
  and older than the threshold. The age is the double that line 382 computes and
  \<open>exceeds\<close> is the comparison \<open>>\<close> of line 384 on doubles, which is false for a
  NaN threshold.
\<close>

theorem cleanup_removes_exactly_stale:
  assumes "wellFormed st"
  shows "activeCommands (cleanupOldCommands now maxAgeMinutes st)
       = filter (\<lambda>(k, cmd). \<not> (status cmd \<noteq> Pending \<and> jsGreater (ageMinutes now cmd) maxAgeMinutes))
           (activeCommands st)
     \<and> getCommand k (cleanupOldCommands now maxAgeMinutes st)
       = (case getCommand k st of
            None \<Rightarrow> None
          | Some cmd \<Rightarrow>
              if status cmd \<noteq> Pending \<and> jsGreater (ageMinutes now cmd) maxAgeMinutes then None
              else Some cmd)"
proof -
  have d: "distinct (map fst (activeCommands st))" using assms by (simp add: wellFormed_def)
  have f: "activeCommands (cleanupOldCommands now maxAgeMinutes st)
       = filter (\<lambda>(k, cmd). \<not> (status cmd \<noteq> Pending \<and> jsGreater (ageMinutes now cmd) maxAgeMinutes))
           (activeCommands st)"
    using cleanup_filter[OF assms] by (simp add: isStale_def)
  show ?thesis
    unfolding getCommand_def f mapGet_filter[OF d]
    by (simp split: option.splits)
qed

theorem cleanup_removes_exactly_stale_witness:
  "getActiveCommandIds (cleanupOldCommands 7200000 (Finite 60) agedState) = [js ''b'', js ''c'']
   \<and> getCommand (js ''a'') (cleanupOldCommands 7200000 (Finite 60) agedState) = None
   \<and> getActiveCommandIds (cleanupOldCommands 7200000 NaN agedState)
       = [js ''a'', js ''b'', js ''c'']
   \<and> getActiveCommandIds (cleanupOldCommands 7021000
         (Finite (4803839602528529 / 288230376151711744)) agedState) = [js ''b'', js ''c'']"
proof -
  have w: "wellFormed agedState"
    by (simp add: wellFormed_def agedState_def initialState_def js_def)
  have l: "(4803839602528529 / 288230376151711744 :: rat) < 8234315881189649 / 70368744177664"
    by simp
  from cleanup_removes_exactly_stale[OF w, of 7200000 "Finite 60" "js ''a''"]
  have a: "getActiveCommandIds (cleanupOldCommands 7200000 (Finite 60) agedState)
        = [js ''b'', js ''c'']
      \<and> getCommand (js ''a'') (cleanupOldCommands 7200000 (Finite 60) agedState) = None"
    by (simp add: getActiveCommandIds_def getCommand_def agedState_def initialState_def
        ages_after_two_hours)
      (simp add: newExecution_def js_def)
  from cleanup_removes_exactly_stale[OF w, of 7200000 NaN "js ''a''"]
  have b: "getActiveCommandIds (cleanupOldCommands 7200000 NaN agedState)
        = [js ''a'', js ''b'', js ''c'']"
    by (simp add: getActiveCommandIds_def agedState_def initialState_def)
  from cleanup_removes_exactly_stale[OF w, of 7021000
      "Finite (4803839602528529 / 288230376151711744)" "js ''a''"]
  have c: "getActiveCommandIds (cleanupOldCommands 7021000
        (Finite (4803839602528529 / 288230376151711744)) agedState) = [js ''b'', js ''c'']"
    by (simp add: getActiveCommandIds_def agedState_def initialState_def
        age_of_one_second age_of_two_hours_and_one_second l)
      (simp add: newExecution_def js_def)
  from a b c show ?thesis by simp
qed

section \<open>The invariant of pending records\<close>

lemma pendingIsUnresolved_alt: "pendingIsUnresolved st = list_all unresolved (activeCommands st)"
  by (auto simp: pendingIsUnresolved_def unresolved_def list_all_iff)

lemma list_all_mapSet: "list_all Q m \<Longrightarrow> Q (k, v) \<Longrightarrow> list_all Q (mapSet k v m)"
  by (induction m) auto

lemma list_all_mapDelete: "list_all Q m \<Longrightarrow> list_all Q (mapDelete k m)"
  by (induction m) auto

lemma list_all_cleanup_fold:
  "list_all Q acc \<Longrightarrow>
   list_all Q (fold (\<lambda>(k, cmd) m. if P cmd then mapDelete k m else m) xs acc)"
  by (induction xs arbitrary: acc) (auto simp: list_all_mapDelete)

lemma mapGet_in_set: "mapGet m k = Some v \<Longrightarrow> (k, v) \<in> set m"
  by (induction m) (auto split: if_splits)

lemma resolve_shapes:
  assumes "resolveFromContent content cmd = Inr cmd'"
  shows "cmd' = cmd \<or> cmd' = cmd\<lparr>result := Some rawModeAdvice\<rparr>
       \<or> cmd' = cmd\<lparr>result := Some notCapturedMessage\<rparr> \<or> status cmd' \<noteq> Pending"
proof (cases "truthy (rawMode cmd)")
  case True
  with assms show ?thesis by (simp add: resolve_raw)
next
  case False
  show ?thesis
  proof (cases "\<exists>i j. lastOccurrence content startMarkerText i
            \<and> lastOccurrence content endMarkerPrefix j \<and> i < j")
    case True
    then obtain i j where "lastOccurrence content startMarkerText i"
      "lastOccurrence content endMarkerPrefix j" "i < j" by blast
    from resolve_located[OF False this] assms show ?thesis
      by (auto simp: Let_def split: if_splits)
  next
    case no: False
    from resolve_unlocated[OF False no] assms show ?thesis by simp
  qed
qed

lemma resolve_unresolved:
  assumes "resolveFromContent content cmd = Inr cmd'" and "unresolved (k, cmd)"
    and "status cmd = Pending"
  shows "unresolved (k, cmd')"
  using resolve_shapes[OF assms(1)] assms(2,3)
  by (auto simp: unresolved_def)

lemma checkCommandStatus_map:
  "activeCommands (snd (checkCommandStatus gw commandId st)) = activeCommands st
   \<or> (\<exists>cmd cmd' content. mapGet (activeCommands st) commandId = Some cmd
         \<and> status cmd = Pending
         \<and> resolveFromContent content cmd = Inr cmd'
         \<and> activeCommands (snd (checkCommandStatus gw commandId st))
              = mapSet commandId cmd' (activeCommands st))"
proof (cases "mapGet (activeCommands st) commandId")
  case None
  then show ?thesis by (simp add: checkCommandStatus_def)
next
  case (Some cmd)
  show ?thesis
  proof (cases "status cmd = Pending")
    case False
    with Some show ?thesis by (simp add: checkCommandStatus_def)
  next
    case True
    show ?thesis
    proof (cases "fst (capturePaneContent gw (paneId cmd) 1000 False st)")
      case (Inl e)
      from checkCommandStatus_capture_fails[OF Some True Inl]
      show ?thesis by (simp add: capturePaneContent_frame)
    next
      case (Inr content)
      obtain cmd' where r: "resolveFromContent content cmd = Inr cmd'"
        using resolve_returns by blast
      from checkCommandStatus_pending[OF Some True Inr r] Some True r
      show ?thesis by auto
    qed
  qed
qed

lemma running_check:
  "perform (answering (js ''$ __mcp_start\<newline>TMUX_MCP_START\<newline>$ sleep 60''))
       toLowerCaseASCII (CheckCommandStatus (js ''id4'')) (tracking runningExecution)
   = (tracking (runningExecution\<lparr>result := Some notCapturedMessage\<rparr>))
       \<lparr>execLog := [js ''tmux capture-pane -p  -t '%1' -S -1000 -E -'']\<rparr>"
proof -
  have k: "id' runningExecution = js ''id4''" by (simp add: runningExecution_def newExecution_def)
  note get = tracking_get[of runningExecution, unfolded k]
  have pend: "status runningExecution = Pending" "\<not> truthy (rawMode runningExecution)"
    by (simp_all add: runningExecution_def newExecution_def truthy_def jsOr_def)
  let ?c = "js ''$ __mcp_start\<newline>TMUX_MCP_START\<newline>$ sleep 60''"
  have t: "trim ?c = ?c" by (simp add: trim_def js_def isWhiteSpace_def)
  have n: "lastIndexOf ?c endMarkerPrefix = - 1" by (simp add: search_eval)
  have r: "resolveFromContent ?c runningExecution
      = Inr (runningExecution\<lparr>result := Some notCapturedMessage\<rparr>)"
    by (rule resolve_unlocated[OF pend(2) not_located_without_end[OF n]])
  have num: "numberToString 1000 = js ''1000''" by (simp add: js_def)
  have log: "snd (capturePaneContent (answering ?c) (paneId runningExecution) 1000 False
                (tracking runningExecution))
      = (tracking runningExecution)\<lparr>execLog := [js ''tmux capture-pane -p  -t '%1' -S -1000 -E -'']\<rparr>"
    unfolding capturePaneContent_def executeTmux_def num
    by (simp add: answering_def Let_def tracking_def initialState_def runningExecution_def
        newExecution_def apostrophe_def js_def)
  from checkCommandStatus_pending[OF get pend(1) answering_capture[OF t] r]
  show ?thesis
    unfolding log by (simp add: tracking_def initialState_def k)
qed

text \<open>
  C5: the claimed invariant, a pending record has neither exit code nor result, is not
  preserved: a status check on a record whose command is still running stores the
  "could not be captured" message as its result and leaves it pending.
\<close>

theorem pending_record_gets_a_result:
  "pendingIsClean (tracking runningExecution)
   \<and> \<not> pendingIsClean (perform
         (answering (js ''$ __mcp_start\<newline>TMUX_MCP_START\<newline>$ sleep 60''))
         toLowerCaseASCII (CheckCommandStatus (js ''id4'')) (tracking runningExecution))"
  unfolding running_check
  by (simp add: pendingIsClean_def tracking_def initialState_def runningExecution_def
      newExecution_def)

text \<open>
  C5, amended: every operation preserves that a pending record has no exit code and
  that its result is absent or one of the two fixed messages of the status check (the
  raw-mode advice, the "could not be captured" message).
\<close>

theorem pending_records_stay_unresolved:
  assumes "pendingIsUnresolved st"
  shows "pendingIsUnresolved (perform gw toLowerCase op st)"
proof (cases op)
  case (SetShellConfig t)
  with assms show ?thesis by (simp add: pendingIsUnresolved_def setShellConfig_def)
next
  case (ExecuteCommand commandId now pane cmd raw noEnter)
  have "unresolved (commandId, newExecution commandId now pane cmd raw noEnter)"
    by (simp add: unresolved_def newExecution_def)
  with assms ExecuteCommand show ?thesis
    by (simp add: pendingIsUnresolved_alt executeCommand_map list_all_mapSet split: sum.splits)
next
  case (CheckCommandStatus commandId)
  from checkCommandStatus_map[of gw commandId st] show ?thesis
  proof
    assume "activeCommands (snd (checkCommandStatus gw commandId st)) = activeCommands st"
    with assms CheckCommandStatus show ?thesis by (simp add: pendingIsUnresolved_def)
  next
    assume "\<exists>cmd cmd' content. mapGet (activeCommands st) commandId = Some cmd
         \<and> status cmd = Pending
         \<and> resolveFromContent content cmd = Inr cmd'
         \<and> activeCommands (snd (checkCommandStatus gw commandId st))
              = mapSet commandId cmd' (activeCommands st)"
    then obtain cmd cmd' content where g: "mapGet (activeCommands st) commandId = Some cmd"
      and p: "status cmd = Pending"
      and r: "resolveFromContent content cmd = Inr cmd'"
      and m: "activeCommands (snd (checkCommandStatus gw commandId st))
              = mapSet commandId cmd' (activeCommands st)"
      by blast
    have "unresolved (commandId, cmd)"
      using assms mapGet_in_set[OF g] by (simp add: pendingIsUnresolved_alt list_all_iff)
    from resolve_unresolved[OF r this p] assms m CheckCommandStatus show ?thesis
      by (simp add: pendingIsUnresolved_alt list_all_mapSet)
  qed
next
  case (GetCommand commandId)
  with assms show ?thesis by simp
next
  case GetActiveCommandIds
  with assms show ?thesis by simp
next
  case (CleanupOldCommands now maxAgeMinutes)
  with assms show ?thesis
    by (simp add: pendingIsUnresolved_alt cleanupOldCommands_def list_all_cleanup_fold)
qed

theorem pending_records_stay_unresolved_witness:
  "pendingIsUnresolved (tracking runningExecution)
   \<and> pendingIsUnresolved (perform
         (answering (js ''$ __mcp_start\<newline>TMUX_MCP_START\<newline>$ sleep 60''))
         toLowerCaseASCII (CheckCommandStatus (js ''id4'')) (tracking runningExecution))"
proof -
  have a: "pendingIsUnresolved (tracking runningExecution)"
    by (simp add: pendingIsUnresolved_def tracking_def initialState_def runningExecution_def
        newExecution_def)
  from a pending_records_stay_unresolved[OF a,
      of "answering (js ''$ __mcp_start\<newline>TMUX_MCP_START\<newline>$ sleep 60'')"
         toLowerCaseASCII "CheckCommandStatus (js ''id4'')"]
  show ?thesis by (rule conjI)
qed

section \<open>The keys of the map\<close>

text \<open>Every operation keeps the keys of the map distinct, as they are at the start.\<close>

lemma keys_mapSet: "set (map fst (mapSet k v m)) = insert k (set (map fst m))"
proof (induction m)
  case Nil
  then show ?case by simp
next
  case (Cons p m)
  obtain k' v' where p: "p = (k', v')" by (cases p)
  show ?case
  proof (cases "k' = k")
    case True
    with p show ?thesis by simp
  next
    case False
    have "set (map fst (mapSet k v (p # m))) = insert k' (set (map fst (mapSet k v m)))"
      using p False by simp
    also have "\<dots> = insert k' (insert k (set (map fst m)))"
      by (simp only: Cons.IH)
    also have "\<dots> = insert k (set (map fst (p # m)))"
      using p by (simp add: insert_commute)
    finally show ?thesis .
  qed
qed

lemma distinct_mapSet: "distinct (map fst m) \<Longrightarrow> distinct (map fst (mapSet k v m))"
proof (induction m)
  case Nil
  then show ?case by simp
next
  case (Cons p m)
  obtain k' v' where p: "p = (k', v')" by (cases p)
  show ?case
  proof (cases "k' = k")
    case True
    with Cons.prems p show ?thesis by simp
  next
    case False
    have "k' \<notin> set (map fst (mapSet k v m))"
      using Cons.prems p False by (simp only: keys_mapSet) simp
    with Cons p False show ?thesis by simp
  qed
qed

lemma wellFormed_initialState: "wellFormed initialState"
  by (simp add: wellFormed_def initialState_def)

lemma wellFormed_perform:
  assumes "wellFormed st"
  shows "wellFormed (perform gw toLowerCase op st)"
proof (cases op)
  case (SetShellConfig t)
  with assms show ?thesis by (simp add: wellFormed_def setShellConfig_def)
next
  case (ExecuteCommand commandId now pane cmd raw noEnter)
  with assms show ?thesis
    by (simp add: wellFormed_def executeCommand_map distinct_mapSet split: sum.splits)
next
  case (CheckCommandStatus commandId)
  from checkCommandStatus_map[of gw commandId st] assms CheckCommandStatus show ?thesis
    by (auto simp: wellFormed_def distinct_mapSet)
next
  case (GetCommand commandId)
  with assms show ?thesis by simp
next
  case GetActiveCommandIds
  with assms show ?thesis by simp
next
  case (CleanupOldCommands now maxAgeMinutes)
  with assms show ?thesis
    by (simp add: wellFormed_def cleanup_filter[OF assms] distinct_keys_filter)
qed

section \<open>Claims about the dispatcher\<close>

text \<open>
  C8: the claim is that a normal-mode submission fails whenever the pane's process
  name is not in the allow-list. The name is lower-cased before the comparison: a
  pane that reports \<open>BASH\<close>, a name that is not in the list, passes the check and
  receives the keys.
\<close>

theorem uppercase_shell_name_passes:
  "js ''BASH'' \<notin> set VALID_SHELLS
   \<and> executeCommand (answering (js ''BASH\<newline>'')) toLowerCaseASCII (js ''id1'') 0 (js ''%1'')
       (js ''ls'') None None initialState
     = (Inr (js ''id1''),
        \<lparr>shellConfig = js ''bash'',
         activeCommands = [(js ''id1'', newExecution (js ''id1'') 0 (js ''%1'') (js ''ls'') None None)],
         execLog = [js ''tmux display-message -p -t '%1' '#{pane_current_command}'' @ apostrophe,
                    js ''tmux send-keys -t '%1' '__mcp_start' Enter 'ls' Enter'']\<rparr>)"
proof -
  have n: "js ''BASH'' \<notin> set VALID_SHELLS" by (simp add: VALID_SHELLS_def js_def)
  have t: "trim (js ''BASH\<newline>'') = js ''BASH''" by (simp add: trim_def js_def isWhiteSpace_def)
  have v: "toLowerCaseASCII (js ''BASH'') \<in> set VALID_SHELLS"
    by (simp add: toLowerCaseASCII_def VALID_SHELLS_def js_def)
  have c: "checkPaneRunsShell (answering (js ''BASH\<newline>'')) toLowerCaseASCII (js ''%1'') None None
        initialState
      = (Inr (), initialState\<lparr>execLog := [js ''tmux '' @ displayMessageCommand (js ''%1'')]\<rparr>)"
    unfolding checkPaneRunsShell_def executeTmux_def
    using t v by (simp add: answering_def truthy_def Let_def initialState_def)
  have d: "js ''tmux '' @ displayMessageCommand (js ''%1'')
      = js ''tmux display-message -p -t '%1' '#{pane_current_command}'' @ apostrophe"
    by (simp add: displayMessageCommand_def apostrophe_def js_def)
  have s: "js ''tmux '' @ sendMarkedCommand (js ''%1'') (js ''ls'')
      = js ''tmux send-keys -t '%1' '__mcp_start' Enter 'ls' Enter''"
    by (simp add: sendMarkedCommand_def escapeQuotes_def apostrophe_def js_def)
  have "executeCommand (answering (js ''BASH\<newline>'')) toLowerCaseASCII (js ''id1'') 0 (js ''%1'')
       (js ''ls'') None None initialState
     = (Inr (js ''id1''),
        \<lparr>shellConfig = js ''bash'',
         activeCommands = [(js ''id1'', newExecution (js ''id1'') 0 (js ''%1'') (js ''ls'') None None)],
         execLog = [js ''tmux '' @ displayMessageCommand (js ''%1''),
                    js ''tmux '' @ sendMarkedCommand (js ''%1'') (js ''ls'')]\<rparr>)"
    unfolding executeCommand_def c sendToPane_def executeTmux_def
    by (simp add: answering_def truthy_def Let_def initialState_def)
  with n show ?thesis unfolding d s by simp
qed

text \<open>
  C8, amended: a normal-mode submission (neither \<open>rawMode\<close> nor \<open>noEnter\<close> set)
  whose pane reports a process name that, lower-cased, is not in the allow-list fails
  with an \<open>Error\<close> whose message holds the pane and the name as reported; the query
  for the name is the only command run, so no key is sent, and no record is stored.
  When \<open>rawMode\<close> or \<open>noEnter\<close> is set the check does nothing: the call runs
  only \<open>send-keys\<close> commands and never fails with that error.
\<close>

theorem ineligible_pane_rejected:
  "(\<not> truthy raw \<and> \<not> truthy noEnter
      \<and> gw (execLog st) (js ''tmux '' @ displayMessageCommand pane) = Inr stdout
      \<and> toLowerCase (trim stdout) \<notin> set VALID_SHELLS
    \<longrightarrow> executeCommand gw toLowerCase commandId now pane cmd raw noEnter st
        = (Inl (JSError (js ''Cannot execute command: pane '' @ pane @ js '' is running ''
                  @ apostrophe @ trim stdout @ apostrophe
                  @ js '', not a shell. Use rawMode for interactive applications.'')),
           st\<lparr>execLog := execLog st @ [js ''tmux '' @ displayMessageCommand pane]\<rparr>))
   \<and> (truthy raw \<or> truthy noEnter
    \<longrightarrow> checkPaneRunsShell gw toLowerCase pane raw noEnter st = (Inr (), st)
      \<and> (\<exists>r st' lines.
            executeCommand gw toLowerCase commandId now pane cmd raw noEnter st = (r, st')
          \<and> execLog st' = execLog st @ lines
          \<and> list_all (sendsKeysTo pane) lines
          \<and> (\<forall>name. r \<noteq> Inl (JSError (notAShellMessage pane name)))))"
proof (intro conjI impI)
  assume a: "\<not> truthy raw \<and> \<not> truthy noEnter
      \<and> gw (execLog st) (js ''tmux '' @ displayMessageCommand pane) = Inr stdout
      \<and> toLowerCase (trim stdout) \<notin> set VALID_SHELLS"
  then have "checkPaneRunsShell gw toLowerCase pane raw noEnter st
      = (Inl (JSError (notAShellMessage pane (trim stdout))),
         st\<lparr>execLog := execLog st @ [js ''tmux '' @ displayMessageCommand pane]\<rparr>)"
    by (simp add: checkPaneRunsShell_def executeTmux_def Let_def)
  then show "executeCommand gw toLowerCase commandId now pane cmd raw noEnter st
        = (Inl (JSError (js ''Cannot execute command: pane '' @ pane @ js '' is running ''
                  @ apostrophe @ trim stdout @ apostrophe
                  @ js '', not a shell. Use rawMode for interactive applications.'')),
           st\<lparr>execLog := execLog st @ [js ''tmux '' @ displayMessageCommand pane]\<rparr>)"
    by (simp add: executeCommand_def notAShellMessage_def)
next
  assume "truthy raw \<or> truthy noEnter"
  then show c: "checkPaneRunsShell gw toLowerCase pane raw noEnter st = (Inr (), st)"
    by (auto simp: checkPaneRunsShell_def)
  let ?new = "newExecution commandId now pane cmd raw noEnter"
  let ?st2 = "st\<lparr>activeCommands := mapSet commandId ?new (activeCommands st)\<rparr>"
  obtain u st3 where s: "sendToPane gw pane cmd raw noEnter ?st2 = (u, st3)"
    by (cases "sendToPane gw pane cmd raw noEnter ?st2")
  from sendToPane_outcome[of gw pane cmd raw noEnter ?st2] s
  obtain lines where l: "execLog st3 = execLog st @ lines"
    "list_all (sendsKeysTo pane) lines" "sendOutcome gw (execLog st) lines u"
    by auto
  have e: "executeCommand gw toLowerCase commandId now pane cmd raw noEnter st
      = ((case u of Inl e \<Rightarrow> Inl e | Inr u' \<Rightarrow> Inr commandId), st3)"
    using c s by (simp add: executeCommand_def Let_def split: sum.splits)
  have "(case u of Inl e \<Rightarrow> Inl e | Inr u' \<Rightarrow> Inr commandId)
      \<noteq> Inl (JSError (notAShellMessage pane name))" for name
    using sendOutcome_not_ineligible[OF l(3), of pane name] by (cases u) auto
  with e l(1,2) show "\<exists>r st' lines.
            executeCommand gw toLowerCase commandId now pane cmd raw noEnter st = (r, st')
          \<and> execLog st' = execLog st @ lines
          \<and> list_all (sendsKeysTo pane) lines
          \<and> (\<forall>name. r \<noteq> Inl (JSError (notAShellMessage pane name)))"
    by blast
qed

theorem ineligible_pane_rejected_witness:
  "executeCommand (answering (js ''vim\<newline>'')) toLowerCaseASCII (js ''id1'') 0 (js ''%1'')
       (js ''ls'') None None initialState
     = (Inl (JSError (js ''Cannot execute command: pane %1 is running 'vim', not a shell. Use rawMode for interactive applications.'')),
        initialState\<lparr>execLog :=
          [js ''tmux display-message -p -t '%1' '#{pane_current_command}'' @ apostrophe]\<rparr>)
   \<and> checkPaneRunsShell (answering (js ''vim\<newline>'')) toLowerCaseASCII (js ''%1'') (Some True) None
        initialState = (Inr (), initialState)"
proof -
  have t: "trim (js ''vim\<newline>'') = js ''vim''" by (simp add: trim_def js_def isWhiteSpace_def)
  have v: "toLowerCaseASCII (js ''vim'') \<notin> set VALID_SHELLS"
    by (simp add: toLowerCaseASCII_def VALID_SHELLS_def js_def)
  have h: "\<not> truthy None \<and> \<not> truthy None
      \<and> answering (js ''vim\<newline>'') (execLog initialState)
           (js ''tmux '' @ displayMessageCommand (js ''%1'')) = Inr (js ''vim\<newline>'')
      \<and> toLowerCaseASCII (trim (js ''vim\<newline>'')) \<notin> set VALID_SHELLS"
    using v by (simp add: truthy_def answering_def t)
  have r: "truthy (Some True) \<or> truthy None" by (simp add: truthy_def)
  have d: "js ''tmux '' @ displayMessageCommand (js ''%1'')
      = js ''tmux display-message -p -t '%1' '#{pane_current_command}'' @ apostrophe"
    by (simp add: displayMessageCommand_def apostrophe_def js_def)
  have m: "js ''Cannot execute command: pane '' @ js ''%1'' @ js '' is running ''
                  @ apostrophe @ js ''vim'' @ apostrophe
                  @ js '', not a shell. Use rawMode for interactive applications.''
      = js ''Cannot execute command: pane %1 is running 'vim', not a shell. Use rawMode for interactive applications.''"
    by (simp add: apostrophe_def js_def)
  from ineligible_pane_rejected[of None None "answering (js ''vim\<newline>'')" initialState
      "js ''%1''" "js ''vim\<newline>''" toLowerCaseASCII "js ''id1''" 0 "js ''ls''"] h
  have first: "executeCommand (answering (js ''vim\<newline>'')) toLowerCaseASCII (js ''id1'') 0 (js ''%1'')
       (js ''ls'') None None initialState
     = (Inl (JSError (js ''Cannot execute command: pane %1 is running 'vim', not a shell. Use rawMode for interactive applications.'')),
        initialState\<lparr>execLog :=
          [js ''tmux display-message -p -t '%1' '#{pane_current_command}'' @ apostrophe]\<rparr>)"
    unfolding t m d by (simp add: initialState_def)
  from ineligible_pane_rejected[of "Some True" None "answering (js ''vim\<newline>'')" initialState
      "js ''%1''" "js ''vim\<newline>''" toLowerCaseASCII "js ''id1''" 0 "js ''ls''"] r
  have "checkPaneRunsShell (answering (js ''vim\<newline>'')) toLowerCaseASCII (js ''%1'') (Some True) None
        initialState = (Inr (), initialState)"
    by blast
  with first show ?thesis by (rule conjI)
qed

text \<open>
  C10: when the check that the pane runs a shell passes (or is skipped), the call ends
  with the new record in the map, pending, whatever the gateway answers to the
  \<open>send-keys\<close> commands; these are the only commands run after the check. The call
  returns the identifier when every one of them is answered, and otherwise it throws
  the \<open>Error\<close> of the first that fails, also when that is the very first, and the
  identifier is not returned.
\<close>

theorem record_registered_before_sending:
  assumes "checkPaneRunsShell gw toLowerCase pane raw noEnter st = (Inr (), st1)"
  shows "\<exists>r st' lines.
       executeCommand gw toLowerCase commandId now pane cmd raw noEnter st = (r, st')
     \<and> activeCommands st'
         = mapSet commandId (newExecution commandId now pane cmd raw noEnter) (activeCommands st)
     \<and> getCommand commandId st' = Some (newExecution commandId now pane cmd raw noEnter)
     \<and> status (newExecution commandId now pane cmd raw noEnter) = Pending
     \<and> execLog st' = execLog st1 @ lines
     \<and> list_all (sendsKeysTo pane) lines
     \<and> (case r of
           Inr v \<Rightarrow> v = commandId \<and> allAnswered gw (execLog st1) lines
         | Inl e \<Rightarrow> \<exists>sent line message. lines = sent @ [line]
              \<and> allAnswered gw (execLog st1) sent
              \<and> gw (execLog st1 @ sent) line = Inl message
              \<and> e = JSError (js ''Failed to execute tmux command: '' @ message))"
proof -
  let ?new = "newExecution commandId now pane cmd raw noEnter"
  let ?st2 = "st1\<lparr>activeCommands := mapSet commandId ?new (activeCommands st1)\<rparr>"
  obtain u st3 where s: "sendToPane gw pane cmd raw noEnter ?st2 = (u, st3)"
    by (cases "sendToPane gw pane cmd raw noEnter ?st2")
  have m1: "activeCommands st1 = activeCommands st"
    using checkPaneRunsShell_frame[of gw toLowerCase pane raw noEnter st] assms by simp
  have m3: "activeCommands st3 = mapSet commandId ?new (activeCommands st)"
    using sendToPane_frame[of gw pane cmd raw noEnter ?st2] s m1 by simp
  from sendToPane_outcome[of gw pane cmd raw noEnter ?st2] s
  obtain lines where l: "execLog st3 = execLog st1 @ lines"
    "list_all (sendsKeysTo pane) lines" "sendOutcome gw (execLog st1) lines u"
    by auto
  have e: "executeCommand gw toLowerCase commandId now pane cmd raw noEnter st
      = ((case u of Inl e \<Rightarrow> Inl e | Inr u' \<Rightarrow> Inr commandId), st3)"
    using assms s by (simp add: executeCommand_def Let_def split: sum.splits)
  have c: "case (case u of Inl e \<Rightarrow> Inl e | Inr u' \<Rightarrow> Inr commandId) of
           Inr v \<Rightarrow> v = commandId \<and> allAnswered gw (execLog st1) lines
         | Inl e \<Rightarrow> \<exists>sent line message. lines = sent @ [line]
              \<and> allAnswered gw (execLog st1) sent
              \<and> gw (execLog st1 @ sent) line = Inl message
              \<and> e = JSError (js ''Failed to execute tmux command: '' @ message)"
    using l(3) by (cases u) (simp_all add: sendOutcome_def)
  have p: "status ?new = Pending" by (simp add: newExecution_def)
  have g: "getCommand commandId st3 = Some ?new"
    by (simp add: getCommand_def m3 mapGet_mapSet_same)
  from e m3 g p l(1,2) c show ?thesis by blast
qed

theorem record_registered_before_sending_witness:
  "fst (executeCommand failingSends toLowerCaseASCII (js ''id1'') 0 (js ''%1'') (js ''ls'')
          None None initialState)
     = Inl (JSError (js ''Failed to execute tmux command: no server running''))
   \<and> getCommand (js ''id1'')
        (snd (executeCommand failingSends toLowerCaseASCII (js ''id1'') 0 (js ''%1'') (js ''ls'')
          None None initialState))
     = Some (newExecution (js ''id1'') 0 (js ''%1'') (js ''ls'') None None)"
proof -
  let ?line = "js ''tmux '' @ displayMessageCommand (js ''%1'')"
  have d: "take 14 ?line \<noteq> js ''tmux send-keys''"
    by (simp add: displayMessageCommand_def js_def)
  have t: "trim (js ''bash'') = js ''bash''" by (simp add: trim_def js_def isWhiteSpace_def)
  have v: "toLowerCaseASCII (js ''bash'') \<in> set VALID_SHELLS"
    by (simp add: toLowerCaseASCII_def VALID_SHELLS_def js_def)
  have c: "checkPaneRunsShell failingSends toLowerCaseASCII (js ''%1'') None None initialState
      = (Inr (), initialState\<lparr>execLog := [?line]\<rparr>)"
    unfolding checkPaneRunsShell_def executeTmux_def
    using d t v by (simp add: failingSends_def truthy_def Let_def initialState_def)
  from record_registered_before_sending[OF c,
      of "js ''id1''" 0 "js ''ls''"]
  obtain r st' where
    x: "executeCommand failingSends toLowerCaseASCII (js ''id1'') 0 (js ''%1'') (js ''ls'')
          None None initialState = (r, st')"
    and g: "getCommand (js ''id1'') st'
      = Some (newExecution (js ''id1'') 0 (js ''%1'') (js ''ls'') None None)"
    by blast
  let ?send = "js ''tmux '' @ sendMarkedCommand (js ''%1'') (js ''ls'')"
  have sk: "take 14 ?send = js ''tmux send-keys''"
    by (simp add: sendMarkedCommand_def js_def)
  have "fst (executeCommand failingSends toLowerCaseASCII (js ''id1'') 0 (js ''%1'') (js ''ls'')
          None None initialState)
     = Inl (JSError (js ''Failed to execute tmux command: no server running''))"
    unfolding executeCommand_def c sendToPane_def executeTmux_def
    using sk by (simp add: failingSends_def truthy_def Let_def js_def)
  with x g show ?thesis by simp
qed

section \<open>The shell adapter\<close>

text \<open>
  C9: for every string given as the shell family, the end-marker text after
  \<open>setShellConfig\<close> is the prefix followed by \<open>$status\<close> when the string is
  \<open>fish\<close> and by \<open>$?\<close> otherwise (so for \<open>bash\<close>, \<open>zsh\<close> and every string
  outside the three), and the configured family is the string itself when it is one
  of \<open>bash\<close>, \<open>zsh\<close>, \<open>fish\<close> and \<open>bash\<close> otherwise.
\<close>

theorem shell_adapter_expansion:
  "getEndMarkerText (setShellConfig t st) =
     (if t = js ''fish'' then endMarkerPrefix @ js ''$status'' else endMarkerPrefix @ js ''$?'')
   \<and> shellConfig (setShellConfig t st) = (if t \<in> set validShells then t else js ''bash'')"
  by (auto simp: getEndMarkerText_def setShellConfig_def validShells_def js_def)

theorem shell_adapter_expansion_witness:
  "getEndMarkerText (setShellConfig (js ''fish'') initialState) = js ''TMUX_MCP_DONE_$status''
   \<and> getEndMarkerText (setShellConfig (js ''zsh'') initialState) = js ''TMUX_MCP_DONE_$?''
   \<and> getEndMarkerText (setShellConfig (js ''powershell'') initialState) = js ''TMUX_MCP_DONE_$?''
   \<and> shellConfig (setShellConfig (js ''powershell'') initialState) = js ''bash''"
  using shell_adapter_expansion [of "js ''fish''" initialState]
    shell_adapter_expansion [of "js ''zsh''" initialState]
    shell_adapter_expansion [of "js ''powershell''" initialState]
  by (simp add: endMarkerPrefix_def validShells_def js_def)

end
